theory Spec2Isabelle
  imports Main "HOL-Library.AList"
begin

section \<open>Data model of the Alibi server\<close>

text \<open>
  The development embeds the WebSocket server class \<open>AlibiServer\<close> (server/index.js) and,
  where a claim refers to it, the guard \<open>canStartGame\<close> of the client-side
  \<open>GameManager\<close> (src/gameManager.ts) and the crime database (src/crimes.ts).

  JavaScript \<open>Map\<close>s whose iteration order is observable (players, votes, alibis, clients)
  are association lists in insertion order: \<open>Map.set\<close> is \<open>AList.update\<close> (an existing key
  keeps its position, a new key goes to the end), \<open>Map.get\<close> is \<open>map_of\<close>,
  \<open>Map.delete\<close> is \<open>AList.delete\<close>.  The room registry, whose order is never observed,
  is a partial function.  The two objects of a round's results are association lists as
  well (keys in order of first assignment).  Scores and confidences are integers.  Values that the code reads
  from the environment (\<open>Date.now()\<close>, \<open>Math.random()\<close>) are inputs of the operations.
\<close>

datatype GamePhase =
  WAITING | SETUP | ALIBI_CONSTRUCTION | INTERROGATION | EVIDENCE_DROP | ACCUSATIONS | RESULTS

record Evidence =
  ev_id :: string
  ev_description :: string
  revealTime :: nat

record Crime =
  crime_id :: string
  title :: string
  description :: string
  location :: string
  crime_time :: string
  evidence :: "Evidence list"

record Player =
  player_id :: string
  player_name :: string
  color :: string
  avatar :: string
  score :: int
  isGuilty :: bool

record Question =
  question_id :: string
  q_from :: string
  q_to :: string
  question :: string
  answer :: "string option"
  timestamp :: nat

record Vote =
  suspectId :: string
  confidence :: int

record Results =
  res_guiltyPlayerId :: "string option"
  res_votes :: "(string \<times> Vote) list"
  res_scores :: "(string \<times> int) list"

record GameState =
  phase :: GamePhase
  crime :: "Crime option"
  guiltyPlayerId :: "string option"
  alibis :: "(string \<times> string) list"
  questions :: "Question list"
  votes :: "(string \<times> Vote) list"
  currentEvidence :: "Evidence list"
  phaseStartTime :: "nat option"
  roundNumber :: nat
  results :: "Results option"

record Timers =
  phaseTimer :: "nat option"
  evidenceTimers :: "nat list"

text \<open>
  \<open>room_ref\<close> is the identity of the room object: the evidence callbacks armed by
  \<open>startPhase\<close> close over the object, not over its code.
\<close>

record Room =
  room_ref :: nat
  code :: string
  host :: string
  players :: "(string \<times> Player) list"
  gameState :: GameState
  timers :: Timers

record ClientData =
  playerId :: string
  roomCode :: "string option"
  playerName :: "string option"

record LeaderboardEntry =
  lb_name :: string
  lb_score :: int
  lb_timestamp :: nat

text \<open>The crime field of a snapshot: the redacted object \<open>{location, time, hidden: true}\<close>
  or the room's crime as it is (possibly \<open>null\<close>).\<close>

datatype CrimeView =
  Hidden "string option" "string option"
  | FullCrime "Crime option"

record Snapshot =
  snap_phase :: GamePhase
  snap_phaseStartTime :: "nat option"
  snap_crime :: CrimeView
  snap_isGuilty :: bool
  snap_players :: "Player list"
  snap_alibis :: "(string \<times> string) list"
  snap_questions :: "Question list"
  snap_currentEvidence :: "Evidence list"
  snap_results :: "Results option"

datatype ServerMessage =
  CONNECTED string
  | ROOM_CREATED string
  | ROOM_JOINED string "Player list" Snapshot
  | PLAYER_JOINED Player nat
  | PLAYER_LEFT string nat
  | PHASE_CHANGE Snapshot
  | ALIBI_SUBMITTED string
  | NEW_QUESTION Question
  | QUESTION_ANSWERED string string
  | EVIDENCE_REVEALED Evidence
  | VOTE_SUBMITTED string
  | ERROR string
  | LEADERBOARD_UPDATE "LeaderboardEntry list"

datatype ClientMessage =
  CREATE_ROOM
  | JOIN_ROOM string string
  | START_GAME
  | SUBMIT_ALIBI string
  | ASK_QUESTION string string
  | ANSWER_QUESTION string string
  | SUBMIT_VOTE string int

text \<open>What a pending \<open>setTimeout\<close> will run: \<open>advancePhase(roomCode)\<close>, or the evidence
  reveal, which pushes onto the captured room object and broadcasts to the code.\<close>

datatype Callback =
  AdvancePhaseCb string
  | RevealEvidenceCb nat string Evidence

record Timer =
  timer_id :: nat
  delay :: nat
  callback :: Callback

text \<open>
  The server: its two registries, the leaderboard, the timeouts armed in the event loop and
  not yet fired or cleared, the sockets in state \<open>OPEN\<close>, and the messages written to
  sockets so far (oldest first).  \<open>nextTimer\<close> and \<open>nextRef\<close> supply fresh timer handles
  and object identities.  \<open>scoringRuns\<close> counts the executions of the body of
  \<open>calculateResults\<close>; nothing reads it.
\<close>

record Server =
  rooms :: "string \<rightharpoonup> Room"
  clients :: "(nat \<times> ClientData) list"
  leaderboard :: "LeaderboardEntry list"
  pending :: "Timer list"
  nextTimer :: nat
  nextRef :: nat
  openSockets :: "nat list"
  outbox :: "(nat \<times> ServerMessage) list"
  scoringRuns :: nat

text \<open>The environment values one handler run reads: \<open>Date.now()\<close>, the string
  \<open>Math.random().toString(36)\<close>, the two values of
  \<open>Math.floor(Math.random() * n)\<close> drawn by \<open>startGame\<close>, and the id
  \<open>q_<now>_<random>\<close> built by \<open>askQuestion\<close>.\<close>

record Env =
  now :: nat
  randomBase36 :: string
  crimeIndex :: nat
  guiltyIndex :: nat
  freshQuestionId :: string

definition PHASE_DURATIONS :: "GamePhase \<Rightarrow> nat option" where
  "PHASE_DURATIONS p =
     (case p of
        SETUP \<Rightarrow> Some 5000
      | ALIBI_CONSTRUCTION \<Rightarrow> Some 30000
      | INTERROGATION \<Rightarrow> Some 30000
      | ACCUSATIONS \<Rightarrow> Some 20000
      | RESULTS \<Rightarrow> Some 10000
      | _ \<Rightarrow> None)"

definition mkEvidence :: "string \<Rightarrow> string \<Rightarrow> nat \<Rightarrow> Evidence" where
  "mkEvidence i d t = \<lparr>ev_id = i, ev_description = d, revealTime = t\<rparr>"

definition museum_heist :: Crime where
  "museum_heist =
     \<lparr>crime_id = ''museum_heist'', title = ''Art Theft'',
      description = ''A valuable sculpture was stolen from the Meridian Museum at 9:47 PM.'',
      location = ''Meridian Museum'', crime_time = ''9:47 PM'',
      evidence =
        [mkEvidence ''tattoo'' ''The thief had a tattoo on their left hand.'' 10,
         mkEvidence ''shoes'' ''Muddy size 10 boot prints were found.'' 20]\<rparr>"

definition corporate_espionage :: Crime where
  "corporate_espionage =
     \<lparr>crime_id = ''corporate_espionage'', title = ''Data Breach'',
      description = ''Files were stolen from TechCorp HQ at 11:23 PM.'',
      location = ''TechCorp HQ'', crime_time = ''11:23 PM'',
      evidence =
        [mkEvidence ''coffee'' ''A coffee cup with lipstick was found.'' 10,
         mkEvidence ''parking'' ''A car with tinted windows was seen.'' 20]\<rparr>"

definition jewelry_theft :: Crime where
  "jewelry_theft =
     \<lparr>crime_id = ''jewelry_theft'', title = ''Diamond Heist'',
      description = ''Diamonds worth $50K stolen from Luxe Jewelers at 8:15 PM.'',
      location = ''Luxe Jewelers'', crime_time = ''8:15 PM'',
      evidence =
        [mkEvidence ''gloves'' ''A latex glove was found at the scene.'' 10,
         mkEvidence ''witness'' ''Someone in a red jacket was seen nearby.'' 20]\<rparr>"

definition vandalism :: Crime where
  "vandalism =
     \<lparr>crime_id = ''vandalism'', title = ''City Hall Vandalism'',
      description = ''Graffiti was spray-painted on City Hall at 2:30 AM.'',
      location = ''City Hall'', crime_time = ''2:30 AM'',
      evidence =
        [mkEvidence ''paint'' ''Blue paint stains led away from the scene.'' 10,
         mkEvidence ''camera'' ''Someone on a bicycle was seen fleeing.'' 20]\<rparr>"

definition restaurant_poisoning :: Crime where
  "restaurant_poisoning =
     \<lparr>crime_id = ''restaurant_poisoning'', title = ''Restaurant Sabotage'',
      description = ''Food at Bella Cucina was contaminated at 6:45 PM.'',
      location = ''Bella Cucina'', crime_time = ''6:45 PM'',
      evidence =
        [mkEvidence ''kitchen'' ''An unauthorized person was in the kitchen.'' 10,
         mkEvidence ''bottle'' ''An empty cleaning bottle was found.'' 20]\<rparr>"

text \<open>\<open>AlibiServer.getCrimes()\<close>: the catalog the server draws from.\<close>

definition getCrimes :: "Crime list" where
  "getCrimes = [museum_heist, corporate_espionage, jewelry_theft]"

text \<open>\<open>CRIMES\<close> of src/crimes.ts: the catalog \<open>getRandomCrime\<close> draws from.\<close>

definition CRIMES :: "Crime list" where
  "CRIMES = [museum_heist, corporate_espionage, jewelry_theft, vandalism, restaurant_poisoning]"

text \<open>\<open>GameManager.canStartGame\<close> of src/gameManager.ts, as a function of
  \<open>this.state.players.size\<close> and \<open>this.state.phase\<close>.\<close>

definition canStartGame :: "nat \<Rightarrow> GamePhase \<Rightarrow> bool" where
  "canStartGame n ph \<longleftrightarrow> 4 \<le> n \<and> ph = WAITING"

definition COLORS :: "string list" where
  "COLORS = [''#E63946'', ''#457B9D'', ''#2A9D8F'', ''#E9C46A'',
             ''#F4A261'', ''#9D4EDD'', ''#06FFA5'', ''#FF006E'']"

definition AVATARS :: "string list" where
  "AVATARS = [''detective'', ''businessman'', ''artist'', ''scientist'',
              ''chef'', ''athlete'', ''musician'', ''teacher'']"

text \<open>Array indexing: out of range is \<open>undefined\<close>.\<close>

definition at_index :: "'a list \<Rightarrow> nat \<Rightarrow> 'a option" where
  "at_index xs i = (if i < length xs then Some (xs ! i) else None)"

definition indexOf :: "'a list \<Rightarrow> 'a \<Rightarrow> nat option" where
  "indexOf xs x = (if x \<in> set xs then Some (length (takeWhile (\<lambda>y. y \<noteq> x) xs)) else None)"

section \<open>Sockets, timeouts and broadcasts\<close>

definition initServer :: "LeaderboardEntry list \<Rightarrow> Server" where
  "initServer lb =
     \<lparr>rooms = Map.empty, clients = [], leaderboard = lb, pending = [], nextTimer = 0,
      nextRef = 0, openSockets = [], outbox = [], scoringRuns = 0\<rparr>"

definition send :: "nat \<Rightarrow> ServerMessage \<Rightarrow> Server \<Rightarrow> Server" where
  "send ws m s =
     (if ws \<in> set (openSockets s) then s\<lparr>outbox := outbox s @ [(ws, m)]\<rparr> else s)"

definition findClient :: "string \<Rightarrow> Server \<Rightarrow> (nat \<times> ClientData) option" where
  "findClient pid s = List.find (\<lambda>wd. playerId (snd wd) = pid) (clients s)"

definition sendToPlayer :: "string \<Rightarrow> ServerMessage \<Rightarrow> Server \<Rightarrow> Server" where
  "sendToPlayer pid m s =
     (case findClient pid s of None \<Rightarrow> s | Some wd \<Rightarrow> send (fst wd) m s)"

definition broadcastToRoom :: "string \<Rightarrow> ServerMessage \<Rightarrow> Server \<Rightarrow> Server" where
  "broadcastToRoom c m s =
     (case rooms s c of
        None \<Rightarrow> s
      | Some room \<Rightarrow> foldl (\<lambda>s' pp. sendToPlayer (fst pp) m s') s (players room))"

definition getPublicGameState :: "Room \<Rightarrow> string \<Rightarrow> Snapshot" where
  "getPublicGameState room pid =
     (let gs = gameState room;
          guilty = (guiltyPlayerId gs = Some pid)
      in \<lparr>snap_phase = phase gs,
          snap_phaseStartTime = phaseStartTime gs,
          snap_crime =
            (if guilty
             then Hidden (map_option location (crime gs)) (map_option crime_time (crime gs))
             else FullCrime (crime gs)),
          snap_isGuilty = guilty,
          snap_players = map snd (players room),
          snap_alibis = alibis gs,
          snap_questions = questions gs,
          snap_currentEvidence = currentEvidence gs,
          snap_results = results gs\<rparr>)"

definition broadcastPhaseUpdate :: "string \<Rightarrow> Server \<Rightarrow> Server" where
  "broadcastPhaseUpdate c s =
     (case rooms s c of
        None \<Rightarrow> s
      | Some room \<Rightarrow>
          foldl (\<lambda>s' pp. sendToPlayer (fst pp) (PHASE_CHANGE (getPublicGameState room (fst pp))) s')
            s (players room))"

definition getRoom :: "string option \<Rightarrow> Server \<Rightarrow> Room option" where
  "getRoom rc s = (case rc of None \<Rightarrow> None | Some c \<Rightarrow> rooms s c)"

text \<open>A field assignment through the room object held by the registry under code \<open>c\<close>.\<close>

definition modifyRoom :: "string \<Rightarrow> (Room \<Rightarrow> Room) \<Rightarrow> Server \<Rightarrow> Server" where
  "modifyRoom c f s =
     (case rooms s c of None \<Rightarrow> s | Some r \<Rightarrow> s\<lparr>rooms := (rooms s)(c \<mapsto> f r)\<rparr>)"

definition modifyGameState :: "string \<Rightarrow> (GameState \<Rightarrow> GameState) \<Rightarrow> Server \<Rightarrow> Server" where
  "modifyGameState c f s = modifyRoom c (\<lambda>r. r\<lparr>gameState := f (gameState r)\<rparr>) s"

definition clearTimeout :: "nat \<Rightarrow> Server \<Rightarrow> Server" where
  "clearTimeout h s = s\<lparr>pending := filter (\<lambda>t. timer_id t \<noteq> h) (pending s)\<rparr>"

definition setTimeout :: "Callback \<Rightarrow> nat \<Rightarrow> Server \<Rightarrow> nat \<times> Server" where
  "setTimeout cb d s =
     (nextTimer s,
      s\<lparr>pending := pending s @ [\<lparr>timer_id = nextTimer s, delay = d, callback = cb\<rparr>],
        nextTimer := Suc (nextTimer s)\<rparr>)"

section \<open>Leaderboard and scoring\<close>

definition broadcastLeaderboard :: "Server \<Rightarrow> Server" where
  "broadcastLeaderboard s =
     foldl (\<lambda>s' wd. send (fst wd) (LEADERBOARD_UPDATE (take 10 (leaderboard s))) s') s (clients s)"

definition addToLeaderboard :: "string \<Rightarrow> int \<Rightarrow> nat \<Rightarrow> Server \<Rightarrow> Server" where
  "addToLeaderboard nm sc t s =
     broadcastLeaderboard
       (s\<lparr>leaderboard :=
            take 100 (sort_key (\<lambda>e. - lb_score e)
              (leaderboard s @ [\<lparr>lb_name = nm, lb_score = sc, lb_timestamp = t\<rparr>]))\<rparr>)"

text \<open>The local variables of \<open>calculateResults\<close> that its loop over the votes updates: the
  players (whose scores it mutates), \<open>fooledCount\<close>, \<open>results.votes\<close> and
  \<open>results.scores\<close>.\<close>

record ScoreAcc =
  acc_players :: "(string \<times> Player) list"
  acc_fooled :: nat
  acc_votes :: "(string \<times> Vote) list"
  acc_scores :: "(string \<times> int) list"

definition scoreVote :: "string option \<Rightarrow> ScoreAcc \<Rightarrow> string \<times> Vote \<Rightarrow> ScoreAcc" where
  "scoreVote guilty acc vv =
     (let voterId = fst vv; vote = snd vv;
          acc1 = acc\<lparr>acc_votes := AList.update voterId vote (acc_votes acc)\<rparr>
      in case map_of (acc_players acc) voterId of
           None \<Rightarrow> acc1
         | Some player \<Rightarrow>
             if Some (suspectId vote) = guilty
             then (let player' = player\<lparr>score := score player + 100 * confidence vote\<rparr>
                   in acc1\<lparr>acc_players := AList.update voterId player' (acc_players acc1),
                          acc_scores := AList.update voterId (score player') (acc_scores acc1)\<rparr>)
             else acc1\<lparr>acc_fooled := Suc (acc_fooled acc1),
                       acc_scores := AList.update voterId (score player) (acc_scores acc1)\<rparr>)"

definition awardGuilty :: "string option \<Rightarrow> ScoreAcc \<Rightarrow> ScoreAcc" where
  "awardGuilty guilty acc =
     (case guilty of
        None \<Rightarrow> acc
      | Some g \<Rightarrow>
          (case map_of (acc_players acc) g of
             None \<Rightarrow> acc
           | Some guiltyPlayer \<Rightarrow>
               (let guiltyPlayer' =
                      guiltyPlayer\<lparr>score := score guiltyPlayer + int (acc_fooled acc) * 150\<rparr>
                in acc\<lparr>acc_players := AList.update g guiltyPlayer' (acc_players acc),
                       acc_scores := AList.update g (score guiltyPlayer') (acc_scores acc)\<rparr>)))"

definition scoreRoom :: "Room \<Rightarrow> ScoreAcc" where
  "scoreRoom room =
     awardGuilty (guiltyPlayerId (gameState room))
       (foldl (scoreVote (guiltyPlayerId (gameState room)))
          \<lparr>acc_players = players room, acc_fooled = 0,
           acc_votes = [], acc_scores = []\<rparr>
          (votes (gameState room)))"

definition calculateResults :: "string \<Rightarrow> nat \<Rightarrow> Server \<Rightarrow> Server" where
  "calculateResults c t s =
     (case rooms s c of
        None \<Rightarrow> s
      | Some room \<Rightarrow>
          (let acc = scoreRoom room;
               res = \<lparr>res_guiltyPlayerId = guiltyPlayerId (gameState room),
                      res_votes = acc_votes acc, res_scores = acc_scores acc\<rparr>;
               s1 = modifyRoom c
                      (\<lambda>r. r\<lparr>players := acc_players acc,
                              gameState := (gameState r)\<lparr>results := Some res\<rparr>\<rparr>)
                      (s\<lparr>scoringRuns := Suc (scoringRuns s)\<rparr>)
           in foldl (\<lambda>s' pp. if score (snd pp) > 0
                              then addToLeaderboard (player_name (snd pp)) (score (snd pp)) t s'
                              else s')
                s1 (acc_players acc)))"

section \<open>The phase state machine\<close>

definition armPhaseTimer :: "string \<Rightarrow> nat \<Rightarrow> Server \<Rightarrow> Server" where
  "armPhaseTimer c d s =
     (let hs = setTimeout (AdvancePhaseCb c) d s
      in modifyRoom c (\<lambda>r. r\<lparr>timers := (timers r)\<lparr>phaseTimer := Some (fst hs)\<rparr>\<rparr>) (snd hs))"

definition armEvidenceTimer :: "string \<Rightarrow> nat \<Rightarrow> Server \<Rightarrow> Evidence \<Rightarrow> Server" where
  "armEvidenceTimer c ref s e =
     (let hs = setTimeout (RevealEvidenceCb ref c e) (revealTime e * 1000) s
      in modifyRoom c
           (\<lambda>r. r\<lparr>timers := (timers r)\<lparr>evidenceTimers := evidenceTimers (timers r) @ [fst hs]\<rparr>\<rparr>)
           (snd hs))"

definition clearRoomTimers :: "string \<Rightarrow> Room \<Rightarrow> Server \<Rightarrow> Server" where
  "clearRoomTimers c room s =
     (let s1 = (case phaseTimer (timers room) of None \<Rightarrow> s | Some h \<Rightarrow> clearTimeout h s);
          s2 = foldl (\<lambda>s' h. clearTimeout h s') s1 (evidenceTimers (timers room))
      in modifyRoom c (\<lambda>r. r\<lparr>timers := (timers r)\<lparr>evidenceTimers := []\<rparr>\<rparr>) s2)"

definition startPhase :: "string \<Rightarrow> GamePhase \<Rightarrow> nat option \<Rightarrow> nat \<Rightarrow> Server \<Rightarrow> Server" where
  "startPhase c ph duration t s =
     (case rooms s c of
        None \<Rightarrow> s
      | Some room \<Rightarrow>
          (let s1 = modifyGameState c (\<lambda>g. g\<lparr>phase := ph, phaseStartTime := Some t\<rparr>) s;
               s2 = clearRoomTimers c room s1;
               s3 = broadcastPhaseUpdate c s2;
               s4 = (case duration of
                       None \<Rightarrow> s3
                     | Some d \<Rightarrow> if d \<noteq> 0 then armPhaseTimer c d s3 else s3)
           in if ph = INTERROGATION
              then (case crime (gameState room) of
                      None \<Rightarrow> s4
                    | Some cr \<Rightarrow> foldl (armEvidenceTimer c (room_ref room)) s4 (evidence cr))
              else s4))"

definition startGame :: "string option \<Rightarrow> Env \<Rightarrow> Server \<Rightarrow> Server" where
  "startGame rc env s =
     (case rc of
        None \<Rightarrow> s
      | Some c \<Rightarrow>
          (case rooms s c of
             None \<Rightarrow> s
           | Some room \<Rightarrow>
               if length (players room) < 4 then s
               else startPhase c SETUP (PHASE_DURATIONS SETUP) (now env)
                      (modifyGameState c
                         (\<lambda>g. g\<lparr>roundNumber := Suc (roundNumber g),
                                 phase := SETUP,
                                 crime := at_index getCrimes (crimeIndex env),
                                 guiltyPlayerId := at_index (map fst (players room)) (guiltyIndex env),
                                 alibis := [],
                                 questions := [],
                                 votes := [],
                                 currentEvidence := []\<rparr>)
                         s)))"

definition phaseSequence :: "GamePhase list" where
  "phaseSequence = [SETUP, ALIBI_CONSTRUCTION, INTERROGATION, ACCUSATIONS, RESULTS]"

definition advancePhase :: "string \<Rightarrow> nat \<Rightarrow> Server \<Rightarrow> Server" where
  "advancePhase c t s =
     (case rooms s c of
        None \<Rightarrow> s
      | Some room \<Rightarrow>
          (case indexOf phaseSequence (phase (gameState room)) of
             None \<Rightarrow> s
           | Some currentIndex \<Rightarrow>
               (let s1 = (if Some currentIndex = indexOf phaseSequence ACCUSATIONS
                          then calculateResults c t s else s)
                in if currentIndex < length phaseSequence - 1
                   then (let nextPhase = phaseSequence ! (currentIndex + 1)
                         in startPhase c nextPhase (PHASE_DURATIONS nextPhase) t s1)
                   else broadcastPhaseUpdate c
                          (modifyGameState c (\<lambda>g. g\<lparr>phase := WAITING, guiltyPlayerId := None\<rparr>) s1))))"

section \<open>Message handlers\<close>

text \<open>\<open>String.prototype.toUpperCase\<close> on the characters base 36 produces
  (digits, lower-case letters, the point).\<close>

definition toUpperCase :: "string \<Rightarrow> string" where
  "toUpperCase =
     map (\<lambda>c. let n = (of_char c :: nat) in if 97 \<le> n \<and> n \<le> 122 then char_of (n - 32) else c)"

text \<open>\<open>generateRoomCode\<close>, from the string \<open>Math.random().toString(36)\<close>:
  \<open>substring(2, 6)\<close> keeps the characters at positions 2 to 5 that exist.\<close>

definition generateRoomCode :: "string \<Rightarrow> string" where
  "generateRoomCode r = toUpperCase (take 4 (drop 2 r))"

definition newGameState :: GameState where
  "newGameState =
     \<lparr>phase = WAITING, crime = None, guiltyPlayerId = None, alibis = [], questions = [],
      votes = [], currentEvidence = [], phaseStartTime = None, roundNumber = 0,
      results = None\<rparr>"

definition createRoom :: "nat \<Rightarrow> ClientData \<Rightarrow> Env \<Rightarrow> Server \<Rightarrow> Server" where
  "createRoom ws cd env s =
     (let rc = generateRoomCode (randomBase36 env);
          room = \<lparr>room_ref = nextRef s, code = rc, host = playerId cd, players = [],
                  gameState = newGameState,
                  timers = \<lparr>phaseTimer = None, evidenceTimers = []\<rparr>\<rparr>
      in send ws (ROOM_CREATED rc)
           (s\<lparr>rooms := (rooms s)(rc \<mapsto> room), nextRef := Suc (nextRef s)\<rparr>))"

definition joinRoom :: "nat \<Rightarrow> ClientData \<Rightarrow> string \<Rightarrow> string \<Rightarrow> Server \<Rightarrow> Server" where
  "joinRoom ws cd rc nm s =
     (case rooms s rc of
        None \<Rightarrow> send ws (ERROR ''Room not found'') s
      | Some room \<Rightarrow>
          if length (players room) \<ge> 8 then send ws (ERROR ''Room is full'') s
          else if phase (gameState room) \<noteq> WAITING
          then send ws (ERROR ''Game already in progress'') s
          else
            (let s1 = s\<lparr>clients :=
                         AList.update ws (cd\<lparr>roomCode := Some rc, playerName := Some nm\<rparr>)
                           (clients s)\<rparr>;
                 colorIndex = length (players room) mod 8;
                 avatarIndex = length (players room) mod 8;
                 player = \<lparr>player_id = playerId cd, player_name = nm,
                           color = COLORS ! colorIndex, avatar = AVATARS ! avatarIndex,
                           score = 0, isGuilty = False\<rparr>;
                 room' = room\<lparr>players := AList.update (playerId cd) player (players room)\<rparr>;
                 s2 = s1\<lparr>rooms := (rooms s1)(rc \<mapsto> room')\<rparr>;
                 s3 = broadcastToRoom rc (PLAYER_JOINED player (length (players room'))) s2
             in send ws
                  (ROOM_JOINED rc (map snd (players room'))
                     (getPublicGameState room' (playerId cd)))
                  s3))"

definition submitAlibi :: "ClientData \<Rightarrow> string \<Rightarrow> Server \<Rightarrow> Server" where
  "submitAlibi cd alibi s =
     (case roomCode cd of
        None \<Rightarrow> s
      | Some c \<Rightarrow>
          (case rooms s c of
             None \<Rightarrow> s
           | Some room \<Rightarrow>
               if phase (gameState room) \<noteq> ALIBI_CONSTRUCTION then s
               else broadcastToRoom c (ALIBI_SUBMITTED (playerId cd))
                      (modifyGameState c
                         (\<lambda>g. g\<lparr>alibis := AList.update (playerId cd) alibi (alibis g)\<rparr>) s)))"

definition askQuestion :: "ClientData \<Rightarrow> string \<Rightarrow> string \<Rightarrow> Env \<Rightarrow> Server \<Rightarrow> Server" where
  "askQuestion cd toId questionText env s =
     (case roomCode cd of
        None \<Rightarrow> s
      | Some c \<Rightarrow>
          (case rooms s c of
             None \<Rightarrow> s
           | Some room \<Rightarrow>
               if phase (gameState room) \<noteq> INTERROGATION then s
               else if length (filter (\<lambda>q. q_from q = playerId cd) (questions (gameState room))) \<ge> 3
               then s
               else
                 (let q = \<lparr>question_id = freshQuestionId env, q_from = playerId cd, q_to = toId,
                           question = questionText, answer = None, timestamp = now env\<rparr>
                  in broadcastToRoom c (NEW_QUESTION q)
                       (modifyGameState c (\<lambda>g. g\<lparr>questions := questions g @ [q]\<rparr>) s))))"

text \<open>The truthiness test \<open>question.answer\<close>: \<open>null\<close> and the empty string are falsy.\<close>

definition hasAnswer :: "Question \<Rightarrow> bool" where
  "hasAnswer q = (case answer q of None \<Rightarrow> False | Some a \<Rightarrow> a \<noteq> [])"

text \<open>\<open>question.answer = answer\<close> on the object \<open>find\<close> returned: the first question of
  the list with that id.\<close>

fun setAnswer :: "string \<Rightarrow> string \<Rightarrow> Question list \<Rightarrow> Question list" where
  "setAnswer qid a [] = []"
| "setAnswer qid a (q # qs) =
     (if question_id q = qid then q\<lparr>answer := Some a\<rparr> # qs else q # setAnswer qid a qs)"

definition answerQuestion :: "ClientData \<Rightarrow> string \<Rightarrow> string \<Rightarrow> Server \<Rightarrow> Server" where
  "answerQuestion cd questionId a s =
     (case roomCode cd of
        None \<Rightarrow> s
      | Some c \<Rightarrow>
          (case rooms s c of
             None \<Rightarrow> s
           | Some room \<Rightarrow>
               (case List.find (\<lambda>q. question_id q = questionId) (questions (gameState room)) of
                  None \<Rightarrow> s
                | Some q \<Rightarrow>
                    if q_to q \<noteq> playerId cd \<or> hasAnswer q then s
                    else broadcastToRoom c (QUESTION_ANSWERED questionId a)
                           (modifyGameState c
                              (\<lambda>g. g\<lparr>questions := setAnswer questionId a (questions g)\<rparr>) s))))"

definition submitVote :: "ClientData \<Rightarrow> string \<Rightarrow> int \<Rightarrow> Server \<Rightarrow> Server" where
  "submitVote cd suspect conf s =
     (case roomCode cd of
        None \<Rightarrow> s
      | Some c \<Rightarrow>
          (case rooms s c of
             None \<Rightarrow> s
           | Some room \<Rightarrow>
               if phase (gameState room) \<noteq> ACCUSATIONS then s
               else broadcastToRoom c (VOTE_SUBMITTED (playerId cd))
                      (modifyGameState c
                         (\<lambda>g. g\<lparr>votes :=
                                   AList.update (playerId cd)
                                     \<lparr>suspectId = suspect, confidence = min 3 (max 1 conf)\<rparr>
                                     (votes g)\<rparr>) s)))"

definition handleMessage :: "nat \<Rightarrow> ClientMessage \<Rightarrow> Env \<Rightarrow> Server \<Rightarrow> Server" where
  "handleMessage ws m env s =
     (case map_of (clients s) ws of
        None \<Rightarrow> s
      | Some cd \<Rightarrow>
          (case m of
             CREATE_ROOM \<Rightarrow> createRoom ws cd env s
           | JOIN_ROOM rc nm \<Rightarrow> joinRoom ws cd rc nm s
           | START_GAME \<Rightarrow> startGame (roomCode cd) env s
           | SUBMIT_ALIBI a \<Rightarrow> submitAlibi cd a s
           | ASK_QUESTION toId q \<Rightarrow> askQuestion cd toId q env s
           | ANSWER_QUESTION qid a \<Rightarrow> answerQuestion cd qid a s
           | SUBMIT_VOTE suspect conf \<Rightarrow> submitVote cd suspect conf s))"

text \<open>\<open>if (clientData.roomCode)\<close> is a truthiness test: \<open>null\<close> and \<open>""\<close> skip the room.\<close>

definition handleDisconnect :: "nat \<Rightarrow> Server \<Rightarrow> Server" where
  "handleDisconnect ws s =
     (case map_of (clients s) ws of
        None \<Rightarrow> s
      | Some cd \<Rightarrow>
          (let s1 =
                 (case roomCode cd of
                    None \<Rightarrow> s
                  | Some c \<Rightarrow>
                      if c = [] then s
                      else
                        (case rooms s c of
                           None \<Rightarrow> s
                         | Some room \<Rightarrow>
                             (let ps = AList.delete (playerId cd) (players room);
                                  sa = s\<lparr>rooms := (rooms s)(c \<mapsto> room\<lparr>players := ps\<rparr>)\<rparr>;
                                  sb = broadcastToRoom c (PLAYER_LEFT (playerId cd) (length ps)) sa
                              in if length ps = 0 then sb\<lparr>rooms := (rooms sb)(c := None)\<rparr>
                                 else sb)))
           in s1\<lparr>clients := AList.delete ws (clients s1)\<rparr>))"

text \<open>The \<open>connection\<close> handler of \<open>setupWebSocket\<close>; \<open>pid\<close> is the value of
  \<open>generateId()\<close>.\<close>

definition onConnection :: "nat \<Rightarrow> string \<Rightarrow> Server \<Rightarrow> Server" where
  "onConnection ws pid s =
     send ws (CONNECTED pid)
       (s\<lparr>clients :=
            AList.update ws \<lparr>playerId = pid, roomCode = None, playerName = None\<rparr> (clients s),
          openSockets := List.insert ws (openSockets s)\<rparr>)"

section \<open>The event loop\<close>

text \<open>A timeout that fires leaves the pending set and runs its callback.  The evidence
  callback pushes onto \<open>currentEvidence\<close> of the room object it captured, which the
  registry shows only while that object is still registered under the code.\<close>

definition fireTimer :: "nat \<Rightarrow> Env \<Rightarrow> Server \<Rightarrow> Server" where
  "fireTimer h env s =
     (case List.find (\<lambda>t. timer_id t = h) (pending s) of
        None \<Rightarrow> s
      | Some tm \<Rightarrow>
          (let s1 = clearTimeout h s
           in case callback tm of
                AdvancePhaseCb c \<Rightarrow> advancePhase c (now env) s1
              | RevealEvidenceCb ref c e \<Rightarrow>
                  broadcastToRoom c (EVIDENCE_REVEALED e)
                    (modifyRoom c
                       (\<lambda>r. if room_ref r = ref
                             then r\<lparr>gameState :=
                                      (gameState r)\<lparr>currentEvidence :=
                                                       currentEvidence (gameState r) @ [e]\<rparr>\<rparr>
                             else r)
                       s1)))"

text \<open>What the single-threaded event loop delivers, one at a time: a new connection, a
  parsed message, a socket that stops being \<open>OPEN\<close> before its \<open>close\<close> event, the
  \<open>close\<close> event, a timeout that fires.\<close>

datatype Event =
  Connection nat string
  | Message nat ClientMessage Env
  | SocketNotOpen nat
  | Close nat
  | TimerFires nat Env

definition step :: "Server \<Rightarrow> Event \<Rightarrow> Server" where
  "step s ev =
     (case ev of
        Connection ws pid \<Rightarrow> onConnection ws pid s
      | Message ws m env \<Rightarrow> handleMessage ws m env s
      | SocketNotOpen ws \<Rightarrow> s\<lparr>openSockets := removeAll ws (openSockets s)\<rparr>
      | Close ws \<Rightarrow> handleDisconnect ws (s\<lparr>openSockets := removeAll ws (openSockets s)\<rparr>)
      | TimerFires h env \<Rightarrow> fireTimer h env s)"

definition run :: "Server \<Rightarrow> Event list \<Rightarrow> Server" where
  "run s evs = foldl step s evs"

section \<open>Auxiliary notions for the proofs\<close>

text \<open>What \<open>send\<close> writes when the message is addressed to a player id: the socket of the
  first client with that id, if it is open.\<close>

definition delivery :: "string \<Rightarrow> ServerMessage \<Rightarrow> Server \<Rightarrow> (nat \<times> ServerMessage) list" where
  "delivery pid m s =
     (case findClient pid s of
        None \<Rightarrow> []
      | Some wd \<Rightarrow> if fst wd \<in> set (openSockets s) then [(fst wd, m)] else [])"

text \<open>The messages an operation has added to the outbox.\<close>

definition emitted :: "Server \<Rightarrow> Server \<Rightarrow> (nat \<times> ServerMessage) list" where
  "emitted s s' = drop (length (outbox s)) (outbox s')"

section \<open>Scenarios\<close>

text \<open>Four clients connect, the first creates room AB12 and all four join it.\<close>

definition env0 :: Env where
  "env0 = \<lparr>now = 1000, randomBase36 = ''0.ab12xyz'', crimeIndex = 0, guiltyIndex = 0,
           freshQuestionId = ''q_1000_0.25''\<rparr>"

definition lobbyEvents :: "Event list" where
  "lobbyEvents =
     [Connection 1 ''p1'', Connection 2 ''p2'', Connection 3 ''p3'', Connection 4 ''p4'',
      Message 1 CREATE_ROOM env0,
      Message 1 (JOIN_ROOM ''AB12'' ''Ann'') env0,
      Message 2 (JOIN_ROOM ''AB12'' ''Bob'') env0,
      Message 3 (JOIN_ROOM ''AB12'' ''Cid'') env0,
      Message 4 (JOIN_ROOM ''AB12'' ''Dee'') env0]"

text \<open>The lobby after \<open>START_GAME\<close>: phase \<open>SETUP\<close>, the first player guilty.\<close>

definition startedServer :: Server where
  "startedServer = run (initServer []) (lobbyEvents @ [Message 1 START_GAME env0])"

definition roomHandles :: "Room \<Rightarrow> nat set" where
  "roomHandles r = set_option (phaseTimer (timers r)) \<union> set (evidenceTimers (timers r))"

fun newEvidenceTimers :: "string \<Rightarrow> nat \<Rightarrow> nat \<Rightarrow> Evidence list \<Rightarrow> Timer list" where
  "newEvidenceTimers c ref n [] = []"
| "newEvidenceTimers c ref n (e # es) =
     \<lparr>timer_id = n, delay = revealTime e * 1000, callback = RevealEvidenceCb ref c e\<rparr>
       # newEvidenceTimers c ref (Suc n) es"

definition armedPhase :: "string \<Rightarrow> nat option \<Rightarrow> nat \<Rightarrow> Timer list" where
  "armedPhase c duration n =
     (case duration of
        None \<Rightarrow> []
      | Some d \<Rightarrow> if d \<noteq> 0 then [\<lparr>timer_id = n, delay = d, callback = AdvancePhaseCb c\<rparr>] else [])"

definition armedEvidence :: "string \<Rightarrow> Room \<Rightarrow> GamePhase \<Rightarrow> nat \<Rightarrow> Timer list" where
  "armedEvidence c room ph n =
     (if ph = INTERROGATION
      then (case crime (gameState room) of
              None \<Rightarrow> []
            | Some cr \<Rightarrow> newEvidenceTimers c (room_ref room) n (evidence cr))
      else [])"

definition startedRoom :: "string \<Rightarrow> Room \<Rightarrow> GamePhase \<Rightarrow> nat option \<Rightarrow> nat \<Rightarrow> nat \<Rightarrow> Room" where
  "startedRoom c room ph duration t n =
     room\<lparr>gameState := (gameState room)\<lparr>phase := ph, phaseStartTime := Some t\<rparr>,
          timers :=
            (timers room)
            \<lparr>phaseTimer := (if armedPhase c duration n = [] then phaseTimer (timers room) else Some n),
             evidenceTimers :=
               map timer_id (armedEvidence c room ph (n + length (armedPhase c duration n)))\<rparr>\<rparr>"

definition phaseBroadcast :: "Room \<Rightarrow> Server \<Rightarrow> (nat \<times> ServerMessage) list" where
  "phaseBroadcast room s =
     concat (map (\<lambda>pp. delivery (fst pp) (PHASE_CHANGE (getPublicGameState room (fst pp))) s)
               (players room))"



definition mkPlayer :: "string \<Rightarrow> string \<Rightarrow> int \<Rightarrow> Player" where
  "mkPlayer i n sc =
     \<lparr>player_id = i, player_name = n, color = ''#E63946'', avatar = ''detective'',
      score = sc, isGuilty = False\<rparr>"

definition scoringRoom :: Room where
  "scoringRoom =
     \<lparr>room_ref = 0, code = ''AB12'', host = ''A'',
      players = [(''A'', mkPlayer ''A'' ''Ann'' 0), (''B'', mkPlayer ''B'' ''Bob'' 50),
                 (''G'', mkPlayer ''G'' ''Gus'' 10), (''X'', mkPlayer ''X'' ''Xia'' 0)],
      gameState = newGameState
        \<lparr>phase := ACCUSATIONS, guiltyPlayerId := Some ''G'',
         votes := [(''A'', \<lparr>suspectId = ''G'', confidence = 2\<rparr>),
                   (''B'', \<lparr>suspectId = ''X'', confidence = 3\<rparr>)]\<rparr>,
      timers = \<lparr>phaseTimer = None, evidenceTimers = []\<rparr>\<rparr>"

definition scoringServer :: Server where
  "scoringServer = (initServer [])\<lparr>rooms := [''AB12'' \<mapsto> scoringRoom]\<rparr>"

definition nextInOrder :: "GamePhase \<Rightarrow> GamePhase" where
  "nextInOrder p =
     (case p of
        SETUP \<Rightarrow> ALIBI_CONSTRUCTION
      | ALIBI_CONSTRUCTION \<Rightarrow> INTERROGATION
      | INTERROGATION \<Rightarrow> ACCUSATIONS
      | ACCUSATIONS \<Rightarrow> RESULTS
      | RESULTS \<Rightarrow> WAITING
      | WAITING \<Rightarrow> WAITING
      | EVIDENCE_DROP \<Rightarrow> EVIDENCE_DROP)"

definition setupRoom :: Room where
  "setupRoom = scoringRoom\<lparr>gameState := (gameState scoringRoom)\<lparr>phase := SETUP\<rparr>\<rparr>"

definition setupServer :: Server where
  "setupServer = (initServer [])\<lparr>rooms := [''AB12'' \<mapsto> setupRoom]\<rparr>"

definition lobbyClients :: "(nat \<times> ClientData) list" where
  "lobbyClients =
     [(1, \<lparr>playerId = ''p1'', roomCode = Some ''AB12'', playerName = Some ''Ann''\<rparr>),
      (2, \<lparr>playerId = ''p2'', roomCode = Some ''AB12'', playerName = Some ''Bob''\<rparr>),
      (3, \<lparr>playerId = ''p3'', roomCode = Some ''AB12'', playerName = Some ''Cid''\<rparr>),
      (4, \<lparr>playerId = ''p4'', roomCode = Some ''AB12'', playerName = Some ''Dee''\<rparr>)]"

definition lobbyPlayers :: "(string \<times> Player) list" where
  "lobbyPlayers =
     [(''p1'', \<lparr>player_id = ''p1'', player_name = ''Ann'', color = ''#E63946'',
               avatar = ''detective'', score = 0, isGuilty = False\<rparr>),
      (''p2'', \<lparr>player_id = ''p2'', player_name = ''Bob'', color = ''#457B9D'',
               avatar = ''businessman'', score = 0, isGuilty = False\<rparr>),
      (''p3'', \<lparr>player_id = ''p3'', player_name = ''Cid'', color = ''#2A9D8F'',
               avatar = ''artist'', score = 0, isGuilty = False\<rparr>),
      (''p4'', \<lparr>player_id = ''p4'', player_name = ''Dee'', color = ''#E9C46A'',
               avatar = ''scientist'', score = 0, isGuilty = False\<rparr>)]"

definition lobbyRoom :: Room where
  "lobbyRoom =
     \<lparr>room_ref = 0, code = ''AB12'', host = ''p1'', players = lobbyPlayers,
      gameState = newGameState, timers = \<lparr>phaseTimer = None, evidenceTimers = []\<rparr>\<rparr>"

definition lobbyServer :: Server where
  "lobbyServer =
     (initServer [])\<lparr>rooms := [''AB12'' \<mapsto> lobbyRoom], clients := lobbyClients,
                     nextRef := 1, openSockets := [4, 3, 2, 1]\<rparr>"

definition interrogationRoom :: Room where
  "interrogationRoom =
     \<lparr>room_ref = 0, code = ''AB12'', host = ''p1'', players = lobbyPlayers,
      gameState =
        \<lparr>phase = INTERROGATION, crime = Some museum_heist, guiltyPlayerId = Some ''p1'',
         alibis = [],
         questions =
           [\<lparr>question_id = ''q_1000_0.25'', q_from = ''p1'', q_to = ''p2'',
             question = ''Where were you at 9:47 PM?'', answer = None, timestamp = 37000\<rparr>],
         votes = [], currentEvidence = [], phaseStartTime = Some 36000, roundNumber = 1,
         results = None\<rparr>,
      timers = \<lparr>phaseTimer = Some 2, evidenceTimers = [3, 4]\<rparr>\<rparr>"

text \<open>The round is started, the two phase timers fire and the first player asks the second
  a question: the room is in \<open>INTERROGATION\<close> with the timers \<open>interrogationTimers\<close> pending.\<close>

definition interrogationEvents :: "Event list" where
  "interrogationEvents =
     lobbyEvents @
     [Message 1 START_GAME env0,
      TimerFires 0 (env0\<lparr>now := 6000\<rparr>),
      TimerFires 1 (env0\<lparr>now := 36000\<rparr>),
      Message 1 (ASK_QUESTION ''p2'' ''Where were you at 9:47 PM?'') (env0\<lparr>now := 37000\<rparr>)]"

definition interrogationTimers :: "Timer list" where
  "interrogationTimers =
     [\<lparr>timer_id = 2, delay = 30000, callback = AdvancePhaseCb ''AB12''\<rparr>,
      \<lparr>timer_id = 3, delay = 10000,
       callback = RevealEvidenceCb 0 ''AB12''
                    (mkEvidence ''tattoo'' ''The thief had a tattoo on their left hand.'' 10)\<rparr>,
      \<lparr>timer_id = 4, delay = 20000,
       callback = RevealEvidenceCb 0 ''AB12''
                    (mkEvidence ''shoes'' ''Muddy size 10 boot prints were found.'' 20)\<rparr>]"

definition roundReset :: "Room \<Rightarrow> Env \<Rightarrow> GameState" where
  "roundReset room env =
     (gameState room)
       \<lparr>roundNumber := Suc (roundNumber (gameState room)),
        phase := SETUP,
        crime := at_index getCrimes (crimeIndex env),
        guiltyPlayerId := at_index (map fst (players room)) (guiltyIndex env),
        alibis := [], questions := [], votes := [], currentEvidence := []\<rparr>"

definition round1Server :: Server where
  "round1Server = startGame (Some ''AB12'') env0 lobbyServer"

definition round1Done :: Server where
  "round1Done =
     advancePhase ''AB12'' 96000 (advancePhase ''AB12'' 86000 (advancePhase ''AB12'' 66000
       (advancePhase ''AB12'' 36000 (advancePhase ''AB12'' 6000 round1Server))))"

definition round2Server :: Server where
  "round2Server = startGame (Some ''AB12'') (env0\<lparr>now := 100000\<rparr>) round1Done"

definition base36Char :: "char \<Rightarrow> bool" where
  "base36Char ch = (ch \<in> set ''0123456789abcdefghijklmnopqrstuvwxyz'')"

definition codeChar :: "char \<Rightarrow> bool" where
  "codeChar ch = (ch \<in> set ''0123456789ABCDEFGHIJKLMNOPQRSTUVWXYZ'')"

definition freshRoom :: "nat \<Rightarrow> string \<Rightarrow> string \<Rightarrow> Room" where
  "freshRoom ref rc h =
     \<lparr>room_ref = ref, code = rc, host = h, players = [], gameState = newGameState,
      timers = \<lparr>phaseTimer = None, evidenceTimers = []\<rparr>\<rparr>"

definition collisionEvents :: "Event list" where
  "collisionEvents =
     [Connection 1 ''p1'', Connection 2 ''p2'',
      Message 1 CREATE_ROOM env0,
      Message 1 (JOIN_ROOM ''AB12'' ''Ann'') env0]"

fun messagePlayers :: "ServerMessage \<Rightarrow> Player list" where
  "messagePlayers (PHASE_CHANGE sn) = snap_players sn"
| "messagePlayers (ROOM_JOINED c ps sn) = ps @ snap_players sn"
| "messagePlayers (PLAYER_JOINED p n) = [p]"
| "messagePlayers m = []"

definition playersInnocent :: "(string \<times> Player) list \<Rightarrow> bool" where
  "playersInnocent ps = (\<forall>pp \<in> set ps. \<not> isGuilty (snd pp))"

definition roomInnocent :: "Room \<Rightarrow> bool" where
  "roomInnocent r = playersInnocent (players r)"

definition messageInnocent :: "ServerMessage \<Rightarrow> bool" where
  "messageInnocent m = (\<forall>p \<in> set (messagePlayers m). \<not> isGuilty p)"

definition innocent :: "Server \<Rightarrow> bool" where
  "innocent s =
     ((\<forall>c r. rooms s c = Some r \<longrightarrow> roomInnocent r)
      \<and> (\<forall>wm \<in> set (outbox s). messageInnocent (snd wm)))"

definition targetOf :: "Timer \<Rightarrow> string" where
  "targetOf t = (case callback t of AdvancePhaseCb c \<Rightarrow> c | RevealEvidenceCb ref c e \<Rightarrow> c)"

definition recordedIn :: "Room \<Rightarrow> Timer \<Rightarrow> bool" where
  "recordedIn r t =
     (case callback t of
        AdvancePhaseCb c \<Rightarrow> phaseTimer (timers r) = Some (timer_id t)
      | RevealEvidenceCb ref c e \<Rightarrow>
          timer_id t \<in> set (evidenceTimers (timers r)) \<and> ref = room_ref r)"

definition inPhase :: "Room \<Rightarrow> Timer \<Rightarrow> bool" where
  "inPhase r t =
     (phase (gameState r) \<noteq> WAITING
      \<and> (case callback t of
           AdvancePhaseCb c \<Rightarrow> True
         | RevealEvidenceCb ref c e \<Rightarrow> phase (gameState r) = INTERROGATION))"

definition timersOkBut :: "string set \<Rightarrow> Server \<Rightarrow> bool" where
  "timersOkBut X s =
     (distinct (map timer_id (pending s))
      \<and> (\<forall>t \<in> set (pending s).
            timer_id t < nextTimer s
            \<and> (case rooms s (targetOf t) of
                 None \<Rightarrow> True
               | Some r \<Rightarrow> recordedIn r t \<and> (targetOf t \<notin> X \<longrightarrow> inPhase r t))))"

definition timersOk :: "Server \<Rightarrow> bool" where
  "timersOk s = timersOkBut {} s"

definition sameTimers :: "Server \<Rightarrow> Server \<Rightarrow> bool" where
  "sameTimers s s' =
     (pending s' = pending s \<and> nextTimer s' = nextTimer s
      \<and> (\<forall>c r'. rooms s' c = Some r' \<longrightarrow>
            (\<exists>r. rooms s c = Some r \<and> timers r' = timers r \<and> room_ref r' = room_ref r
                 \<and> phase (gameState r') = phase (gameState r))))"

fun createdCode :: "Event \<Rightarrow> string option" where
  "createdCode (Message ws CREATE_ROOM env) = Some (generateRoomCode (randomBase36 env))"
| "createdCode ev = None"

definition safeEvent :: "Server \<Rightarrow> Event \<Rightarrow> bool" where
  "safeEvent s ev =
     (case createdCode ev of
        None \<Rightarrow> True
      | Some rc \<Rightarrow> \<forall>tm \<in> set (pending s). targetOf tm \<noteq> rc)"

fun safeRun :: "Server \<Rightarrow> Event list \<Rightarrow> bool" where
  "safeRun s [] = True"
| "safeRun s (ev # evs) = (safeEvent s ev \<and> safeRun (step s ev) evs)"

definition codeReuseEvents :: "Event list" where
  "codeReuseEvents =
     lobbyEvents @
     [Message 1 START_GAME env0,
      Message 1 CREATE_ROOM env0,
      Message 1 (JOIN_ROOM ''AB12'' ''Ann'') env0,
      Message 2 (JOIN_ROOM ''AB12'' ''Bob'') env0,
      Message 3 (JOIN_ROOM ''AB12'' ''Cid'') env0,
      Message 4 (JOIN_ROOM ''AB12'' ''Dee'') env0,
      Message 2 START_GAME (env0\<lparr>now := 3000\<rparr>)]"

text \<open>The step that runs the scoring, if this one does: a pending timeout of
  \<open>advancePhase\<close> fires for a registered room that is in \<open>ACCUSATIONS\<close>.\<close>

definition scoringStep :: "Server \<Rightarrow> Event \<Rightarrow> string option" where
  "scoringStep s ev =
     (case ev of
        TimerFires h env \<Rightarrow>
          (case List.find (\<lambda>t. timer_id t = h) (pending s) of
             None \<Rightarrow> None
           | Some tm \<Rightarrow>
               (case callback tm of
                  AdvancePhaseCb c \<Rightarrow>
                    (case rooms s c of
                       None \<Rightarrow> None
                     | Some r \<Rightarrow> if phase (gameState r) = ACCUSATIONS then Some c else None)
                | RevealEvidenceCb ref c e \<Rightarrow> None))
      | Connection ws pid \<Rightarrow> None
      | Message ws m env \<Rightarrow> None
      | SocketNotOpen ws \<Rightarrow> None
      | Close ws \<Rightarrow> None)"

text \<open>The number of such steps along a run.\<close>

fun scoringSteps :: "Server \<Rightarrow> Event list \<Rightarrow> nat" where
  "scoringSteps s [] = 0"
| "scoringSteps s (ev # evs) =
     (case scoringStep s ev of None \<Rightarrow> 0 | Some c \<Rightarrow> 1) + scoringSteps (step s ev) evs"




section \<open>Effects of sends and broadcasts\<close>

lemma send_eq:
  "send ws m s = s\<lparr>outbox := outbox s @ (if ws \<in> set (openSockets s) then [(ws, m)] else [])\<rparr>"
  by (simp add: send_def)

lemma sendToPlayer_eq: "sendToPlayer pid m s = s\<lparr>outbox := outbox s @ delivery pid m s\<rparr>"
  by (simp add: sendToPlayer_def delivery_def send_eq split: option.splits)

lemma delivery_outbox [simp]: "delivery pid m (s\<lparr>outbox := ob\<rparr>) = delivery pid m s"
  by (simp add: delivery_def findClient_def cong: option.case_cong)

lemma foldl_sendToPlayer:
  "foldl (\<lambda>s' pp. sendToPlayer (fst pp) (f pp) s') s ps =
   s\<lparr>outbox := outbox s @ concat (map (\<lambda>pp. delivery (fst pp) (f pp) s) ps)\<rparr>"
proof (induction ps arbitrary: s)
  case Nil
  show ?case by simp
next
  case (Cons p ps)
  have "foldl (\<lambda>s' pp. sendToPlayer (fst pp) (f pp) s') s (p # ps)
        = foldl (\<lambda>s' pp. sendToPlayer (fst pp) (f pp) s') (sendToPlayer (fst p) (f p) s) ps"
    by simp
  also have "\<dots> = (sendToPlayer (fst p) (f p) s)\<lparr>outbox := outbox (sendToPlayer (fst p) (f p) s)
        @ concat (map (\<lambda>pp. delivery (fst pp) (f pp) (sendToPlayer (fst p) (f p) s)) ps)\<rparr>"
    by (rule Cons.IH)
  also have "\<dots> = s\<lparr>outbox := outbox s @ concat (map (\<lambda>pp. delivery (fst pp) (f pp) s) (p # ps))\<rparr>"
    by (simp add: sendToPlayer_eq)
  finally show ?case .
qed

lemma broadcastToRoom_eq:
  "broadcastToRoom c m s =
   s\<lparr>outbox := outbox s @
      (case rooms s c of None \<Rightarrow> []
       | Some room \<Rightarrow> concat (map (\<lambda>pp. delivery (fst pp) m s) (players room)))\<rparr>"
  by (simp add: broadcastToRoom_def foldl_sendToPlayer split: option.splits)

lemma broadcastPhaseUpdate_eq:
  "broadcastPhaseUpdate c s =
   s\<lparr>outbox := outbox s @
      (case rooms s c of None \<Rightarrow> []
       | Some room \<Rightarrow>
           concat (map (\<lambda>pp. delivery (fst pp) (PHASE_CHANGE (getPublicGameState room (fst pp))) s)
                     (players room)))\<rparr>"
  by (simp add: broadcastPhaseUpdate_def foldl_sendToPlayer split: option.splits)

lemma delivery_cases:
  "x \<in> set (delivery pid m s) \<Longrightarrow> snd x = m \<and> (\<exists>d. findClient pid s = Some (fst x, d))"
  by (cases "findClient pid s") (auto simp: delivery_def split: if_splits)

section \<open>Personalised snapshots\<close>

text \<open>
  Claim C5.  The snapshot \<open>getPublicGameState\<close> builds for a recipient has \<open>isGuilty\<close> true
  exactly when the recipient's id is the room's \<open>guiltyPlayerId\<close>; its crime field is the
  redacted object (location, time, hidden) exactly in that case, built from the room's
  crime, and is the room's crime itself otherwise.  Every message \<open>broadcastPhaseUpdate\<close>
  writes is a \<open>PHASE_CHANGE\<close> carrying the snapshot built for a player of the room, written
  to the socket registered for that player.
\<close>

theorem snapshot_personalised:
  "snap_isGuilty (getPublicGameState room pid) = (guiltyPlayerId (gameState room) = Some pid)
   \<and> ((\<exists>l t. snap_crime (getPublicGameState room pid) = Hidden l t)
        = (guiltyPlayerId (gameState room) = Some pid))
   \<and> snap_crime (getPublicGameState room pid) =
       (if guiltyPlayerId (gameState room) = Some pid
        then Hidden (map_option location (crime (gameState room)))
               (map_option crime_time (crime (gameState room)))
        else FullCrime (crime (gameState room)))
   \<and> (\<forall>ws m. (ws, m) \<in> set (emitted s (broadcastPhaseUpdate c s)) \<longrightarrow>
         rooms s c = Some room \<longrightarrow>
         (\<exists>rcpt d. rcpt \<in> fst ` set (players room) \<and> findClient rcpt s = Some (ws, d)
             \<and> m = PHASE_CHANGE (getPublicGameState room rcpt)))"
proof (intro conjI allI impI)
  show "snap_isGuilty (getPublicGameState room pid) = (guiltyPlayerId (gameState room) = Some pid)"
    by (simp add: getPublicGameState_def Let_def)
  show "(\<exists>l t. snap_crime (getPublicGameState room pid) = Hidden l t)
        = (guiltyPlayerId (gameState room) = Some pid)"
    by (simp add: getPublicGameState_def Let_def)
  show "snap_crime (getPublicGameState room pid) =
       (if guiltyPlayerId (gameState room) = Some pid
        then Hidden (map_option location (crime (gameState room)))
               (map_option crime_time (crime (gameState room)))
        else FullCrime (crime (gameState room)))"
    by (simp add: getPublicGameState_def Let_def)
next
  fix ws m
  assume sent: "(ws, m) \<in> set (emitted s (broadcastPhaseUpdate c s))"
    and room: "rooms s c = Some room"
  from sent room obtain pp where pp: "pp \<in> set (players room)"
    and d: "(ws, m) \<in> set (delivery (fst pp) (PHASE_CHANGE (getPublicGameState room (fst pp))) s)"
    by (auto simp: emitted_def broadcastPhaseUpdate_eq)
  from delivery_cases [OF d] pp
  show "\<exists>rcpt d. rcpt \<in> fst ` set (players room) \<and> findClient rcpt s = Some (ws, d)
             \<and> m = PHASE_CHANGE (getPublicGameState room rcpt)"
    by force
qed

theorem snapshot_personalised_witness:
  "(case rooms startedServer ''AB12'' of
      None \<Rightarrow> False
    | Some room \<Rightarrow>
        (1, PHASE_CHANGE (getPublicGameState room ''p1''))
          \<in> set (emitted startedServer (broadcastPhaseUpdate ''AB12'' startedServer))
        \<and> guiltyPlayerId (gameState room) = Some ''p1''
        \<and> snap_isGuilty (getPublicGameState room ''p1'')
        \<and> snap_crime (getPublicGameState room ''p1'')
            = Hidden (Some ''Meridian Museum'') (Some ''9:47 PM'')
        \<and> \<not> snap_isGuilty (getPublicGameState room ''p2'')
        \<and> snap_crime (getPublicGameState room ''p2'') = FullCrime (Some museum_heist))"
proof -
  have ev: "(case rooms startedServer ''AB12'' of None \<Rightarrow> False | Some room \<Rightarrow>
      (1, PHASE_CHANGE (getPublicGameState room ''p1''))
          \<in> set (emitted startedServer (broadcastPhaseUpdate ''AB12'' startedServer))
      \<and> guiltyPlayerId (gameState room) = Some ''p1''
      \<and> crime (gameState room) = Some museum_heist)"
    by code_simp
  then obtain room where room: "rooms startedServer ''AB12'' = Some room"
    by (cases "rooms startedServer ''AB12''") auto
  from ev room
  have sent: "(1, PHASE_CHANGE (getPublicGameState room ''p1''))
          \<in> set (emitted startedServer (broadcastPhaseUpdate ''AB12'' startedServer))"
    and g: "guiltyPlayerId (gameState room) = Some ''p1''"
           "crime (gameState room) = Some museum_heist"
    by simp_all
  have loc: "location museum_heist = ''Meridian Museum'' \<and> crime_time museum_heist = ''9:47 PM''"
    by (simp add: museum_heist_def)
  note inst = snapshot_personalised [of room "''p1''" startedServer "''AB12''"]
    snapshot_personalised [of room "''p2''" startedServer "''AB12''"]
  show ?thesis
    using inst sent g loc room by simp
qed

lemma send_proj [simp]:
  "rooms (send ws m s) = rooms s" "clients (send ws m s) = clients s"
  "pending (send ws m s) = pending s" "nextTimer (send ws m s) = nextTimer s"
  "nextRef (send ws m s) = nextRef s" "openSockets (send ws m s) = openSockets s"
  "leaderboard (send ws m s) = leaderboard s" "scoringRuns (send ws m s) = scoringRuns s"
  by (simp_all add: send_eq)

lemma broadcastToRoom_proj [simp]:
  "rooms (broadcastToRoom c m s) = rooms s" "clients (broadcastToRoom c m s) = clients s"
  "pending (broadcastToRoom c m s) = pending s" "nextTimer (broadcastToRoom c m s) = nextTimer s"
  "nextRef (broadcastToRoom c m s) = nextRef s" "openSockets (broadcastToRoom c m s) = openSockets s"
  "leaderboard (broadcastToRoom c m s) = leaderboard s"
  "scoringRuns (broadcastToRoom c m s) = scoringRuns s"
  by (simp_all add: broadcastToRoom_eq)

lemma broadcastPhaseUpdate_proj [simp]:
  "rooms (broadcastPhaseUpdate c s) = rooms s" "clients (broadcastPhaseUpdate c s) = clients s"
  "pending (broadcastPhaseUpdate c s) = pending s"
  "nextTimer (broadcastPhaseUpdate c s) = nextTimer s"
  "nextRef (broadcastPhaseUpdate c s) = nextRef s"
  "openSockets (broadcastPhaseUpdate c s) = openSockets s"
  "leaderboard (broadcastPhaseUpdate c s) = leaderboard s"
  "scoringRuns (broadcastPhaseUpdate c s) = scoringRuns s"
  by (simp_all add: broadcastPhaseUpdate_eq)

lemma foldl_send_eq:
  "foldl (\<lambda>s' wd. send (fst wd) (f wd) s') s ws =
   s\<lparr>outbox := outbox s @ concat (map (\<lambda>wd. if fst wd \<in> set (openSockets s) then [(fst wd, f wd)] else []) ws)\<rparr>"
proof (induction ws arbitrary: s)
  case Nil
  show ?case by simp
next
  case (Cons w ws)
  have "foldl (\<lambda>s' wd. send (fst wd) (f wd) s') s (w # ws)
        = foldl (\<lambda>s' wd. send (fst wd) (f wd) s') (send (fst w) (f w) s) ws"
    by simp
  also have "\<dots> = (send (fst w) (f w) s)\<lparr>outbox := outbox (send (fst w) (f w) s) @
      concat (map (\<lambda>wd. if fst wd \<in> set (openSockets (send (fst w) (f w) s)) then [(fst wd, f wd)] else []) ws)\<rparr>"
    by (rule Cons.IH)
  also have "\<dots> = s\<lparr>outbox := outbox s @ concat (map (\<lambda>wd. if fst wd \<in> set (openSockets s) then [(fst wd, f wd)] else []) (w # ws))\<rparr>"
    by (simp add: send_eq)
  finally show ?case .
qed

lemma addToLeaderboard_proj [simp]:
  "rooms (addToLeaderboard nm sc t s) = rooms s" "clients (addToLeaderboard nm sc t s) = clients s"
  "pending (addToLeaderboard nm sc t s) = pending s"
  "nextTimer (addToLeaderboard nm sc t s) = nextTimer s"
  "nextRef (addToLeaderboard nm sc t s) = nextRef s"
  "openSockets (addToLeaderboard nm sc t s) = openSockets s"
  "scoringRuns (addToLeaderboard nm sc t s) = scoringRuns s"
  by (simp_all add: addToLeaderboard_def broadcastLeaderboard_def foldl_send_eq)

lemma foldl_leaderboard_proj [simp]:
  "rooms (foldl (\<lambda>s' pp. if P pp then addToLeaderboard (f pp) (g pp) t s' else s') s ps) = rooms s"
  "clients (foldl (\<lambda>s' pp. if P pp then addToLeaderboard (f pp) (g pp) t s' else s') s ps) = clients s"
  "pending (foldl (\<lambda>s' pp. if P pp then addToLeaderboard (f pp) (g pp) t s' else s') s ps) = pending s"
  "nextTimer (foldl (\<lambda>s' pp. if P pp then addToLeaderboard (f pp) (g pp) t s' else s') s ps) = nextTimer s"
  "nextRef (foldl (\<lambda>s' pp. if P pp then addToLeaderboard (f pp) (g pp) t s' else s') s ps) = nextRef s"
  "openSockets (foldl (\<lambda>s' pp. if P pp then addToLeaderboard (f pp) (g pp) t s' else s') s ps) = openSockets s"
  "scoringRuns (foldl (\<lambda>s' pp. if P pp then addToLeaderboard (f pp) (g pp) t s' else s') s ps) = scoringRuns s"
  by (induction ps arbitrary: s; simp)+

lemma modifyRoom_Some: "rooms s c = Some r \<Longrightarrow> modifyRoom c f s = s\<lparr>rooms := (rooms s)(c \<mapsto> f r)\<rparr>"
  by (simp add: modifyRoom_def)

lemma modifyRoom_None: "rooms s c = None \<Longrightarrow> modifyRoom c f s = s"
  by (simp add: modifyRoom_def)

lemma calculateResults_rooms:
  "rooms s c = Some room \<Longrightarrow>
   rooms (calculateResults c t s) =
     (rooms s)(c \<mapsto> room\<lparr>players := acc_players (scoreRoom room),
                  gameState := (gameState room)\<lparr>results := Some
                     \<lparr>res_guiltyPlayerId = guiltyPlayerId (gameState room),
                      res_votes = acc_votes (scoreRoom room),
                      res_scores = acc_scores (scoreRoom room)\<rparr>\<rparr>\<rparr>)"
  by (simp add: calculateResults_def Let_def modifyRoom_def)

lemma calculateResults_proj:
  "pending (calculateResults c t s) = pending s"
  "nextTimer (calculateResults c t s) = nextTimer s"
  "nextRef (calculateResults c t s) = nextRef s"
  "clients (calculateResults c t s) = clients s"
  "openSockets (calculateResults c t s) = openSockets s"
  "scoringRuns (calculateResults c t s) = (if rooms s c = None then scoringRuns s else Suc (scoringRuns s))"
  by (simp_all add: calculateResults_def Let_def modifyRoom_def split: option.splits)

lemma foldl_clearTimeout:
  "foldl (\<lambda>s' h. clearTimeout h s') s hs
   = s\<lparr>pending := filter (\<lambda>t. timer_id t \<notin> set hs) (pending s)\<rparr>"
proof (induction hs arbitrary: s)
  case Nil
  show ?case by simp
next
  case (Cons h hs)
  have "foldl (\<lambda>s' h. clearTimeout h s') s (h # hs) = foldl (\<lambda>s' h. clearTimeout h s') (clearTimeout h s) hs"
    by simp
  also have "\<dots> = (clearTimeout h s)\<lparr>pending := filter (\<lambda>t. timer_id t \<notin> set hs) (pending (clearTimeout h s))\<rparr>"
    by (rule Cons.IH)
  also have "\<dots> = s\<lparr>pending := filter (\<lambda>t. timer_id t \<notin> set (h # hs)) (pending s)\<rparr>"
    by (simp add: clearTimeout_def conj_commute)
  finally show ?case .
qed

lemma clearRoomTimers_eq:
  "rooms s c = Some r \<Longrightarrow>
   clearRoomTimers c room s =
     s\<lparr>pending := filter (\<lambda>t. timer_id t \<notin> roomHandles room) (pending s),
       rooms := (rooms s)(c \<mapsto> r\<lparr>timers := (timers r)\<lparr>evidenceTimers := []\<rparr>\<rparr>)\<rparr>"
  unfolding clearRoomTimers_def Let_def foldl_clearTimeout
  by (cases "phaseTimer (timers room)")
     (simp_all add: modifyRoom_def clearTimeout_def roomHandles_def conj_commute)

lemma armPhaseTimer_eq:
  "rooms s c = Some r \<Longrightarrow>
   armPhaseTimer c d s =
     s\<lparr>pending := pending s @ [\<lparr>timer_id = nextTimer s, delay = d, callback = AdvancePhaseCb c\<rparr>],
       nextTimer := Suc (nextTimer s),
       rooms := (rooms s)(c \<mapsto> r\<lparr>timers := (timers r)\<lparr>phaseTimer := Some (nextTimer s)\<rparr>\<rparr>)\<rparr>"
  by (simp add: armPhaseTimer_def setTimeout_def Let_def modifyRoom_def)

lemma armEvidenceTimer_eq:
  "rooms s c = Some r \<Longrightarrow>
   armEvidenceTimer c ref s e =
     s\<lparr>pending := pending s @ [\<lparr>timer_id = nextTimer s, delay = revealTime e * 1000,
                                  callback = RevealEvidenceCb ref c e\<rparr>],
       nextTimer := Suc (nextTimer s),
       rooms := (rooms s)(c \<mapsto> r\<lparr>timers := (timers r)\<lparr>evidenceTimers :=
                                       evidenceTimers (timers r) @ [nextTimer s]\<rparr>\<rparr>)\<rparr>"
  by (simp add: armEvidenceTimer_def setTimeout_def Let_def modifyRoom_def)

lemma foldl_armEvidenceTimer:
  "rooms s c = Some r \<Longrightarrow>
   foldl (armEvidenceTimer c ref) s es =
     s\<lparr>pending := pending s @ newEvidenceTimers c ref (nextTimer s) es,
       nextTimer := nextTimer s + length es,
       rooms := (rooms s)(c \<mapsto> r\<lparr>timers := (timers r)\<lparr>evidenceTimers :=
                  evidenceTimers (timers r) @ map timer_id (newEvidenceTimers c ref (nextTimer s) es)\<rparr>\<rparr>)\<rparr>"
proof (induction es arbitrary: s r)
  case Nil
  then show ?case by (simp add: map_upd_triv)
next
  case (Cons e es)
  let ?s1 = "armEvidenceTimer c ref s e"
  let ?r1 = "r\<lparr>timers := (timers r)\<lparr>evidenceTimers := evidenceTimers (timers r) @ [nextTimer s]\<rparr>\<rparr>"
  have s1: "?s1 = s\<lparr>pending := pending s @ [\<lparr>timer_id = nextTimer s, delay = revealTime e * 1000,
                                  callback = RevealEvidenceCb ref c e\<rparr>],
       nextTimer := Suc (nextTimer s),
       rooms := (rooms s)(c \<mapsto> ?r1)\<rparr>"
    by (rule armEvidenceTimer_eq [OF Cons.prems])
  have r1: "rooms ?s1 c = Some ?r1" by (simp add: s1)
  have "foldl (armEvidenceTimer c ref) s (e # es) = foldl (armEvidenceTimer c ref) ?s1 es" by simp
  also have "\<dots> = ?s1\<lparr>pending := pending ?s1 @ newEvidenceTimers c ref (nextTimer ?s1) es,
       nextTimer := nextTimer ?s1 + length es,
       rooms := (rooms ?s1)(c \<mapsto> ?r1\<lparr>timers := (timers ?r1)\<lparr>evidenceTimers :=
                  evidenceTimers (timers ?r1) @ map timer_id (newEvidenceTimers c ref (nextTimer ?s1) es)\<rparr>\<rparr>)\<rparr>"
    by (rule Cons.IH [OF r1])
  also have "\<dots> = s\<lparr>pending := pending s @ newEvidenceTimers c ref (nextTimer s) (e # es),
       nextTimer := nextTimer s + length (e # es),
       rooms := (rooms s)(c \<mapsto> r\<lparr>timers := (timers r)\<lparr>evidenceTimers :=
                  evidenceTimers (timers r) @ map timer_id (newEvidenceTimers c ref (nextTimer s) (e # es))\<rparr>\<rparr>)\<rparr>"
    unfolding s1 by simp
  finally show ?case .
qed

lemma delivery_cong:
  "clients s' = clients s \<Longrightarrow> openSockets s' = openSockets s \<Longrightarrow> delivery pid m s' = delivery pid m s"
  by (simp add: delivery_def findClient_def cong: option.case_cong)

lemma broadcastPhaseUpdate_Some:
  "rooms s c = Some room \<Longrightarrow>
   broadcastPhaseUpdate c s = s\<lparr>outbox := outbox s @ phaseBroadcast room s\<rparr>"
  by (simp add: broadcastPhaseUpdate_eq phaseBroadcast_def)

lemma phaseBroadcast_cong:
  "clients s' = clients s \<Longrightarrow> openSockets s' = openSockets s \<Longrightarrow>
   phaseBroadcast room s' = phaseBroadcast room s"
  by (simp add: phaseBroadcast_def delivery_cong [of s' s])

lemma phaseBroadcast_upd [simp]:
  "phaseBroadcast room (s\<lparr>rooms := rs\<rparr>) = phaseBroadcast room s"
  "phaseBroadcast room (s\<lparr>pending := ps\<rparr>) = phaseBroadcast room s"
  "phaseBroadcast room (s\<lparr>nextTimer := n\<rparr>) = phaseBroadcast room s"
  "phaseBroadcast room (s\<lparr>outbox := ob\<rparr>) = phaseBroadcast room s"
  by (rule phaseBroadcast_cong; simp)+

lemma length_newEvidenceTimers [simp]: "length (newEvidenceTimers c ref n es) = length es"
  by (induction es arbitrary: n) simp_all

lemma startPhase_None: "rooms s c = None \<Longrightarrow> startPhase c ph d t s = s"
  by (simp add: startPhase_def)

lemma startPhase_eq:
  assumes room: "rooms s c = Some room"
  shows "startPhase c ph d t s =
     s\<lparr>rooms := (rooms s)(c \<mapsto> startedRoom c room ph d t (nextTimer s)),
       pending := filter (\<lambda>tm. timer_id tm \<notin> roomHandles room) (pending s)
                  @ armedPhase c d (nextTimer s)
                  @ armedEvidence c room ph (nextTimer s + length (armedPhase c d (nextTimer s))),
       nextTimer := nextTimer s + length (armedPhase c d (nextTimer s))
                    + length (armedEvidence c room ph (nextTimer s + length (armedPhase c d (nextTimer s)))),
       outbox := outbox s @
          phaseBroadcast
            (room\<lparr>gameState := (gameState room)\<lparr>phase := ph, phaseStartTime := Some t\<rparr>,
                  timers := (timers room)\<lparr>evidenceTimers := []\<rparr>\<rparr>) s\<rparr>"
proof -
  let ?r1 = "room\<lparr>gameState := (gameState room)\<lparr>phase := ph, phaseStartTime := Some t\<rparr>\<rparr>"
  let ?r2 = "?r1\<lparr>timers := (timers room)\<lparr>evidenceTimers := []\<rparr>\<rparr>"
  let ?s1 = "modifyGameState c (\<lambda>g. g\<lparr>phase := ph, phaseStartTime := Some t\<rparr>) s"
  let ?s2 = "clearRoomTimers c room ?s1"
  let ?s3 = "broadcastPhaseUpdate c ?s2"
  let ?s4 = "(case d of None \<Rightarrow> ?s3 | Some d' \<Rightarrow> if d' \<noteq> 0 then armPhaseTimer c d' ?s3 else ?s3)"
  have s1: "?s1 = s\<lparr>rooms := (rooms s)(c \<mapsto> ?r1)\<rparr>"
    using room by (simp add: modifyGameState_def modifyRoom_def)
  have r1: "rooms ?s1 c = Some ?r1" by (simp add: s1)
  have s2: "?s2 = s\<lparr>pending := filter (\<lambda>tm. timer_id tm \<notin> roomHandles room) (pending s),
                     rooms := (rooms s)(c \<mapsto> ?r2)\<rparr>"
    unfolding clearRoomTimers_eq [OF r1] unfolding s1 by simp
  have r2: "rooms ?s2 c = Some ?r2" unfolding s2 by simp
  have s3: "?s3 = s\<lparr>pending := filter (\<lambda>tm. timer_id tm \<notin> roomHandles room) (pending s),
                     rooms := (rooms s)(c \<mapsto> ?r2),
                     outbox := outbox s @ phaseBroadcast ?r2 s\<rparr>"
    unfolding broadcastPhaseUpdate_Some [OF r2] unfolding s2
    by simp
  have r3: "rooms ?s3 c = Some ?r2" unfolding s3 by simp
  let ?r4 = "?r2\<lparr>timers := (timers room)\<lparr>phaseTimer := (if armedPhase c d (nextTimer s) = [] then phaseTimer (timers room) else Some (nextTimer s)), evidenceTimers := []\<rparr>\<rparr>"
  have s4: "?s4 = s\<lparr>pending := filter (\<lambda>tm. timer_id tm \<notin> roomHandles room) (pending s)
                          @ armedPhase c d (nextTimer s),
                     nextTimer := nextTimer s + length (armedPhase c d (nextTimer s)),
                     rooms := (rooms s)(c \<mapsto> ?r4),
                     outbox := outbox s @ phaseBroadcast ?r2 s\<rparr>"
  proof (cases d)
    case None
    then show ?thesis unfolding s3 by (simp add: armedPhase_def)
  next
    case (Some d')
    show ?thesis
    proof (cases "d' = 0")
      case True
      with Some show ?thesis unfolding s3 by (simp add: armedPhase_def)
    next
      case False
      with Some show ?thesis
        unfolding armPhaseTimer_eq [OF r3] option.case unfolding s3
        by (auto simp: armedPhase_def intro!: Server.equality Room.equality Timers.equality)
    qed
  qed
  have r4: "rooms ?s4 c = Some ?r4" unfolding s4 by simp
  have unfold: "startPhase c ph d t s =
      (if ph = INTERROGATION
       then (case crime (gameState room) of None \<Rightarrow> ?s4
             | Some cr \<Rightarrow> foldl (armEvidenceTimer c (room_ref room)) ?s4 (evidence cr))
       else ?s4)"
    using room by (simp add: startPhase_def Let_def)
  show ?thesis
  proof (cases "ph = INTERROGATION")
    case False
    then show ?thesis unfolding unfold s4
      by (auto simp: armedEvidence_def startedRoom_def
            intro!: Server.equality Room.equality Timers.equality)
  next
    case True
    show ?thesis
    proof (cases "crime (gameState room)")
      case None
      with True show ?thesis unfolding unfold s4
        by (auto simp: armedEvidence_def startedRoom_def
              intro!: Server.equality Room.equality Timers.equality)
    next
      case (Some cr)
      have "startPhase c ph d t s = foldl (armEvidenceTimer c (room_ref room)) ?s4 (evidence cr)"
        unfolding unfold using True Some by simp
      also note foldl_armEvidenceTimer [OF r4]
      finally show ?thesis unfolding s4 using True Some
        by (auto simp: armedEvidence_def startedRoom_def
              intro!: Server.equality Room.equality Timers.equality)
    qed
  qed
qed

lemma update_present_keys:
  "map_of al k = Some v \<Longrightarrow> map fst (AList.update k v' al) = map fst al"
  by (simp add: update_keys map_of_eq_None_iff [symmetric] del: map_of_eq_None_iff)

lemma scoreVote_keys: "map fst (acc_players (scoreVote g acc vv)) = map fst (acc_players acc)"
  by (simp add: scoreVote_def Let_def update_present_keys split: option.splits)



lemma foldl_scoreVote_keys:
  "map fst (acc_players (foldl (scoreVote g) acc vs)) = map fst (acc_players acc)"
  by (induction vs arbitrary: acc) (simp_all add: scoreVote_keys)



lemma awardGuilty_keys: "map fst (acc_players (awardGuilty g acc)) = map fst (acc_players acc)"
  by (simp add: awardGuilty_def Let_def update_present_keys split: option.splits)


lemma scoreRoom_keys: "map fst (acc_players (scoreRoom room)) = map fst (players room)"
  by (simp add: scoreRoom_def awardGuilty_keys foldl_scoreVote_keys)


section \<open>Scoring\<close>



lemma indexOf_phaseSequence:
  "indexOf phaseSequence SETUP = Some 0"
  "indexOf phaseSequence ALIBI_CONSTRUCTION = Some 1"
  "indexOf phaseSequence INTERROGATION = Some 2"
  "indexOf phaseSequence ACCUSATIONS = Some 3"
  "indexOf phaseSequence RESULTS = Some 4"
  "indexOf phaseSequence WAITING = None"
  "indexOf phaseSequence EVIDENCE_DROP = None"
  by (simp_all add: indexOf_def phaseSequence_def)

lemma advancePhase_cases:
  assumes "rooms s c = Some room"
  shows "advancePhase c t s =
     (case phase (gameState room) of
        SETUP \<Rightarrow> startPhase c ALIBI_CONSTRUCTION (PHASE_DURATIONS ALIBI_CONSTRUCTION) t s
      | ALIBI_CONSTRUCTION \<Rightarrow> startPhase c INTERROGATION (PHASE_DURATIONS INTERROGATION) t s
      | INTERROGATION \<Rightarrow> startPhase c ACCUSATIONS (PHASE_DURATIONS ACCUSATIONS) t s
      | ACCUSATIONS \<Rightarrow> startPhase c RESULTS (PHASE_DURATIONS RESULTS) t (calculateResults c t s)
      | RESULTS \<Rightarrow> broadcastPhaseUpdate c
            (modifyGameState c (\<lambda>g. g\<lparr>phase := WAITING, guiltyPlayerId := None\<rparr>) s)
      | WAITING \<Rightarrow> s
      | EVIDENCE_DROP \<Rightarrow> s)"
  using assms
  by (cases "phase (gameState room)")
     (simp_all add: advancePhase_def indexOf_phaseSequence Let_def, simp_all add: phaseSequence_def)

lemma advancePhase_None: "rooms s c = None \<Longrightarrow> advancePhase c t s = s"
  by (simp add: advancePhase_def)

lemma startPhase_room_phase:
  "rooms s c = Some room \<Longrightarrow>
   \<exists>room'. rooms (startPhase c ph d t s) c = Some room'
      \<and> phase (gameState room') = ph
      \<and> guiltyPlayerId (gameState room') = guiltyPlayerId (gameState room)
      \<and> players room' = players room"
  by (simp add: startPhase_eq startedRoom_def)

lemma startPhase_scoringRuns [simp]: "scoringRuns (startPhase c ph d t s) = scoringRuns s"
  by (cases "rooms s c") (simp_all add: startPhase_None startPhase_eq)

lemma modifyGameState_Some:
  "rooms s c = Some r \<Longrightarrow>
   modifyGameState c f s = s\<lparr>rooms := (rooms s)(c \<mapsto> r\<lparr>gameState := f (gameState r)\<rparr>)\<rparr>"
  by (simp add: modifyGameState_def modifyRoom_def)

lemma advancePhase_next:
  assumes room: "rooms s c = Some room"
  shows "\<exists>room'. rooms (advancePhase c t s) c = Some room'
           \<and> phase (gameState room') = nextInOrder (phase (gameState room))
           \<and> (phase (gameState room) = RESULTS \<longrightarrow> guiltyPlayerId (gameState room') = None)"
proof (cases "phase (gameState room)")
  case ACCUSATIONS
  have "rooms (calculateResults c t s) c \<noteq> None"
    by (simp add: calculateResults_rooms [OF room])
  then obtain r1 where r1: "rooms (calculateResults c t s) c = Some r1" by auto
  from startPhase_room_phase [OF r1, of RESULTS "PHASE_DURATIONS RESULTS" t] ACCUSATIONS
  show ?thesis
    unfolding advancePhase_cases [OF room] by (auto simp: nextInOrder_def)
next
  case RESULTS
  then show ?thesis
    unfolding advancePhase_cases [OF room]
    by (simp add: nextInOrder_def modifyGameState_Some [OF room])
next
  case SETUP
  with startPhase_room_phase [OF room, of ALIBI_CONSTRUCTION "PHASE_DURATIONS ALIBI_CONSTRUCTION" t]
  show ?thesis
    unfolding advancePhase_cases [OF room] by (auto simp: nextInOrder_def)
next
  case ALIBI_CONSTRUCTION
  with startPhase_room_phase [OF room, of INTERROGATION "PHASE_DURATIONS INTERROGATION" t]
  show ?thesis
    unfolding advancePhase_cases [OF room] by (auto simp: nextInOrder_def)
next
  case INTERROGATION
  with startPhase_room_phase [OF room, of ACCUSATIONS "PHASE_DURATIONS ACCUSATIONS" t]
  show ?thesis
    unfolding advancePhase_cases [OF room] by (auto simp: nextInOrder_def)
next
  case WAITING
  with room show ?thesis
    unfolding advancePhase_cases [OF room] by (simp add: nextInOrder_def)
next
  case EVIDENCE_DROP
  with room show ?thesis
    unfolding advancePhase_cases [OF room] by (simp add: nextInOrder_def)
qed

lemma advancePhase_scoringRuns:
  assumes room: "rooms s c = Some room"
  shows "scoringRuns (advancePhase c t s)
         = scoringRuns s + (if phase (gameState room) = ACCUSATIONS then 1 else 0)"
  using room
  by (cases "phase (gameState room)")
     (simp_all add: advancePhase_cases [OF room] calculateResults_proj modifyGameState_Some [OF room])

section \<open>Advancing the phase\<close>

text \<open>
  One call of \<open>advancePhase\<close> on a registered room moves the phase one step along
  SETUP, ALIBI_CONSTRUCTION, INTERROGATION, ACCUSATIONS, RESULTS and from RESULTS to WAITING,
  where it also clears \<open>guiltyPlayerId\<close> (\<open>nextInOrder\<close>).  From ACCUSATIONS it is
  \<open>startPhase\<close> for RESULTS applied to the state \<open>calculateResults\<close> returns, so the
  scoring comes before the phase change and its broadcast.  The scoring body runs in that
  call and in no other; over five calls that take a room from SETUP back to WAITING it
  runs exactly once.
\<close>

lemma advancePhase_sequence:
  assumes room: "rooms s c = Some room"
  shows "(\<exists>room'. rooms (advancePhase c t s) c = Some room'
            \<and> phase (gameState room') = nextInOrder (phase (gameState room))
            \<and> (phase (gameState room) = RESULTS \<longrightarrow> guiltyPlayerId (gameState room') = None))
     \<and> (phase (gameState room) = ACCUSATIONS \<longrightarrow>
           advancePhase c t s
             = startPhase c RESULTS (PHASE_DURATIONS RESULTS) t (calculateResults c t s))
     \<and> scoringRuns (advancePhase c t s)
           = scoringRuns s + (if phase (gameState room) = ACCUSATIONS then 1 else 0)
     \<and> (phase (gameState room) = SETUP \<longrightarrow>
           (\<exists>room5.
              rooms (advancePhase c t5 (advancePhase c t4 (advancePhase c t3
                       (advancePhase c t2 (advancePhase c t s))))) c = Some room5
              \<and> phase (gameState room5) = WAITING
              \<and> guiltyPlayerId (gameState room5) = None)
           \<and> scoringRuns (advancePhase c t5 (advancePhase c t4 (advancePhase c t3
                       (advancePhase c t2 (advancePhase c t s)))))
               = scoringRuns s + 1)"
proof (intro conjI impI)
  show "\<exists>room'. rooms (advancePhase c t s) c = Some room'
            \<and> phase (gameState room') = nextInOrder (phase (gameState room))
            \<and> (phase (gameState room) = RESULTS \<longrightarrow> guiltyPlayerId (gameState room') = None)"
    by (rule advancePhase_next [OF room])
  show "scoringRuns (advancePhase c t s)
           = scoringRuns s + (if phase (gameState room) = ACCUSATIONS then 1 else 0)"
    by (rule advancePhase_scoringRuns [OF room])
next
  assume "phase (gameState room) = ACCUSATIONS"
  then show "advancePhase c t s
             = startPhase c RESULTS (PHASE_DURATIONS RESULTS) t (calculateResults c t s)"
    by (simp add: advancePhase_cases [OF room])
next
  assume st: "phase (gameState room) = SETUP"
  let ?s1 = "advancePhase c t s"
  let ?s2 = "advancePhase c t2 ?s1"
  let ?s3 = "advancePhase c t3 ?s2"
  let ?s4 = "advancePhase c t4 ?s3"
  let ?s5 = "advancePhase c t5 ?s4"
  from advancePhase_next [OF room, of t] st obtain r1 where
    r1: "rooms ?s1 c = Some r1" "phase (gameState r1) = ALIBI_CONSTRUCTION"
    by (auto simp: nextInOrder_def)
  from advancePhase_next [OF r1(1), of t2] r1(2) obtain r2 where
    r2: "rooms ?s2 c = Some r2" "phase (gameState r2) = INTERROGATION"
    by (auto simp: nextInOrder_def)
  from advancePhase_next [OF r2(1), of t3] r2(2) obtain r3 where
    r3: "rooms ?s3 c = Some r3" "phase (gameState r3) = ACCUSATIONS"
    by (auto simp: nextInOrder_def)
  from advancePhase_next [OF r3(1), of t4] r3(2) obtain r4 where
    r4: "rooms ?s4 c = Some r4" "phase (gameState r4) = RESULTS"
    by (auto simp: nextInOrder_def)
  from advancePhase_next [OF r4(1), of t5] r4(2)
  show "\<exists>room5. rooms ?s5 c = Some room5 \<and> phase (gameState room5) = WAITING
              \<and> guiltyPlayerId (gameState room5) = None"
    by (auto simp: nextInOrder_def)
  show "scoringRuns ?s5 = scoringRuns s + 1"
    using st r1(2) r2(2) r3(2) r4(2)
    by (simp add: advancePhase_scoringRuns [OF room] advancePhase_scoringRuns [OF r1(1)]
          advancePhase_scoringRuns [OF r2(1)] advancePhase_scoringRuns [OF r3(1)]
          advancePhase_scoringRuns [OF r4(1)])
qed

lemma advancePhase_sequence_witness:
  "rooms scoringServer ''AB12'' = Some scoringRoom
   \<and> phase (gameState scoringRoom) = ACCUSATIONS
   \<and> (\<exists>room'. rooms (advancePhase ''AB12'' 9 scoringServer) ''AB12'' = Some room'
          \<and> phase (gameState room') = RESULTS)
   \<and> advancePhase ''AB12'' 9 scoringServer
        = startPhase ''AB12'' RESULTS (Some 10000) 9 (calculateResults ''AB12'' 9 scoringServer)
   \<and> scoringRuns (advancePhase ''AB12'' 9 scoringServer) = 1
   \<and> rooms setupServer ''AB12'' = Some setupRoom
   \<and> phase (gameState setupRoom) = SETUP
   \<and> (\<exists>room5.
          rooms (advancePhase ''AB12'' 5 (advancePhase ''AB12'' 4 (advancePhase ''AB12'' 3
                   (advancePhase ''AB12'' 2 (advancePhase ''AB12'' 1 setupServer))))) ''AB12''
            = Some room5
          \<and> phase (gameState room5) = WAITING \<and> guiltyPlayerId (gameState room5) = None)
   \<and> scoringRuns (advancePhase ''AB12'' 5 (advancePhase ''AB12'' 4 (advancePhase ''AB12'' 3
                   (advancePhase ''AB12'' 2 (advancePhase ''AB12'' 1 setupServer))))) = 1"
proof -
  have a1: "rooms scoringServer ''AB12'' = Some scoringRoom"
    by (simp add: scoringServer_def)
  have a2: "phase (gameState scoringRoom) = ACCUSATIONS"
    by (simp add: scoringRoom_def)
  have a3: "scoringRuns scoringServer = 0"
    by (simp add: scoringServer_def initServer_def)
  have b1: "rooms setupServer ''AB12'' = Some setupRoom"
    by (simp add: setupServer_def)
  have b2: "phase (gameState setupRoom) = SETUP"
    by (simp add: setupRoom_def)
  have b3: "scoringRuns setupServer = 0"
    by (simp add: setupServer_def initServer_def)
  have d: "PHASE_DURATIONS RESULTS = Some 10000"
    by (simp add: PHASE_DURATIONS_def)
  note acc = advancePhase_sequence [OF a1, of 9]
  from acc [THEN conjunct1] a2
  have c1: "\<exists>room'. rooms (advancePhase ''AB12'' 9 scoringServer) ''AB12'' = Some room'
          \<and> phase (gameState room') = RESULTS"
    by (auto simp: nextInOrder_def)
  from acc [THEN conjunct2, THEN conjunct1] a2 d
  have c2: "advancePhase ''AB12'' 9 scoringServer
        = startPhase ''AB12'' RESULTS (Some 10000) 9 (calculateResults ''AB12'' 9 scoringServer)"
    by simp
  from acc [THEN conjunct2, THEN conjunct2, THEN conjunct1] a2 a3
  have c3: "scoringRuns (advancePhase ''AB12'' 9 scoringServer) = 1"
    by simp
  note stp = advancePhase_sequence [OF b1, of 1 5 4 3 2]
  from stp [THEN conjunct2, THEN conjunct2, THEN conjunct2] b2 b3
  have c4: "\<exists>room5.
          rooms (advancePhase ''AB12'' 5 (advancePhase ''AB12'' 4 (advancePhase ''AB12'' 3
                   (advancePhase ''AB12'' 2 (advancePhase ''AB12'' 1 setupServer))))) ''AB12''
            = Some room5
          \<and> phase (gameState room5) = WAITING \<and> guiltyPlayerId (gameState room5) = None"
    and c5: "scoringRuns (advancePhase ''AB12'' 5 (advancePhase ''AB12'' 4 (advancePhase ''AB12'' 3
                   (advancePhase ''AB12'' 2 (advancePhase ''AB12'' 1 setupServer))))) = 1"
    by simp_all
  show ?thesis
    by (intro conjI) (rule a1 a2 c1 c2 c3 b1 b2 c4 c5)+
qed

section \<open>Starting a round\<close>

lemma lobby_reached:
  "rooms (run (initServer []) lobbyEvents) ''AB12'' = Some lobbyRoom
   \<and> clients (run (initServer []) lobbyEvents) = lobbyClients
   \<and> pending (run (initServer []) lobbyEvents) = []
   \<and> nextTimer (run (initServer []) lobbyEvents) = 0
   \<and> nextRef (run (initServer []) lobbyEvents) = 1
   \<and> openSockets (run (initServer []) lobbyEvents) = [4, 3, 2, 1]"
  by code_simp

lemma startGame_noop:
  "rc = None \<or> getRoom rc s = None
     \<or> (\<exists>room. getRoom rc s = Some room \<and> length (players room) < 4)
   \<Longrightarrow> startGame rc env s = s"
  by (auto simp: startGame_def getRoom_def split: option.splits)

lemma startGame_Some:
  assumes "rooms s c = Some room" and "4 \<le> length (players room)"
  shows "startGame (Some c) env s =
     startPhase c SETUP (Some 5000) (now env)
       (s\<lparr>rooms := (rooms s)(c \<mapsto> room\<lparr>gameState := roundReset room env\<rparr>)\<rparr>)"
  using assms
  by (simp add: startGame_def modifyGameState_Some roundReset_def PHASE_DURATIONS_def)

lemma startGame_room:
  assumes "rooms s c = Some room" and "4 \<le> length (players room)"
  shows "rooms (startGame (Some c) env s) =
     (rooms s)(c \<mapsto> startedRoom c (room\<lparr>gameState := roundReset room env\<rparr>) SETUP (Some 5000)
                      (now env) (nextTimer s))"
  by (simp add: startGame_Some [OF assms] startPhase_eq)

lemma startGame_effect:
  assumes "rooms s c = Some room" and "4 \<le> length (players room)"
  shows "\<exists>room'. rooms (startGame (Some c) env s) c = Some room'
     \<and> players room' = players room
     \<and> phase (gameState room') = SETUP
     \<and> roundNumber (gameState room') = Suc (roundNumber (gameState room))
     \<and> crime (gameState room') = at_index getCrimes (crimeIndex env)
     \<and> guiltyPlayerId (gameState room') = at_index (map fst (players room)) (guiltyIndex env)
     \<and> alibis (gameState room') = [] \<and> questions (gameState room') = []
     \<and> votes (gameState room') = [] \<and> currentEvidence (gameState room') = []"
  by (simp add: startGame_room [OF assms] startedRoom_def roundReset_def)

lemma startGame_outbox:
  assumes "rooms s c = Some room" and "4 \<le> length (players room)"
  shows "outbox (startGame (Some c) env s) =
     outbox s @ phaseBroadcast
        (room\<lparr>gameState := (roundReset room env)\<lparr>phase := SETUP, phaseStartTime := Some (now env)\<rparr>,
              timers := (timers room)\<lparr>evidenceTimers := []\<rparr>\<rparr>) s"
  by (simp add: startGame_Some [OF assms] startPhase_eq)

lemma startGame_crime_in_catalog:
  assumes "rooms s c = Some room" and "4 \<le> length (players room)"
    and "crimeIndex env < length getCrimes"
  shows "\<exists>room' cr. rooms (startGame (Some c) env s) c = Some room'
     \<and> crime (gameState room') = Some cr \<and> cr \<in> set getCrimes"
  using startGame_effect [OF assms(1,2), of env] assms(3)
  by (auto simp: at_index_def)

text \<open>
  Claim C7.  The catalog \<open>getCrimes\<close> that \<open>AlibiServer.startGame\<close> indexes has three
  entries, not five: the entries \<open>vandalism\<close> and \<open>restaurant_poisoning\<close> of the
  five-entry \<open>CRIMES\<close> of src/crimes.ts are missing, so the server never selects them.
\<close>

theorem server_catalog_has_three_crimes:
  "length getCrimes = 3 \<and> length CRIMES = 5
   \<and> set getCrimes \<subseteq> set CRIMES
   \<and> vandalism \<in> set CRIMES \<and> vandalism \<notin> set getCrimes
   \<and> restaurant_poisoning \<in> set CRIMES \<and> restaurant_poisoning \<notin> set getCrimes"
  by (simp add: getCrimes_def CRIMES_def museum_heist_def corporate_espionage_def
        jewelry_theft_def vandalism_def restaurant_poisoning_def)

lemma delivery_upd [simp]:
  "delivery pid m (s\<lparr>rooms := rs\<rparr>) = delivery pid m s"
  "delivery pid m (s\<lparr>pending := ps\<rparr>) = delivery pid m s"
  "delivery pid m (s\<lparr>nextTimer := n\<rparr>) = delivery pid m s"
  by (rule delivery_cong; simp)+

lemma find_setAnswer:
  "List.find (\<lambda>q. question_id q = qid) qs = Some q \<Longrightarrow>
   List.find (\<lambda>q. question_id q = qid) (setAnswer qid a qs) = Some (q\<lparr>answer := Some a\<rparr>)"
  by (induction qs) (auto split: if_splits)

lemma answerQuestion_accepted:
  assumes "roomCode cd = Some c" and "rooms s c = Some room"
    and "List.find (\<lambda>q. question_id q = qid) (questions (gameState room)) = Some q"
    and "q_to q = playerId cd" and "\<not> hasAnswer q"
  shows "answerQuestion cd qid a s =
     broadcastToRoom c (QUESTION_ANSWERED qid a)
       (s\<lparr>rooms := (rooms s)(c \<mapsto> room\<lparr>gameState :=
            (gameState room)\<lparr>questions := setAnswer qid a (questions (gameState room))\<rparr>\<rparr>)\<rparr>)"
  using assms by (simp add: answerQuestion_def modifyGameState_Some)

lemma answerQuestion_ignored:
  assumes "roomCode cd = Some c" and "rooms s c = Some room"
    and "List.find (\<lambda>q. question_id q = qid) (questions (gameState room)) = None
         \<or> (\<exists>q. List.find (\<lambda>q. question_id q = qid) (questions (gameState room)) = Some q
                \<and> (q_to q \<noteq> playerId cd \<or> hasAnswer q))"
  shows "answerQuestion cd qid a s = s"
  using assms by (auto simp: answerQuestion_def)

lemma answerQuestion_second_call_ignored:
  assumes "roomCode cd = Some c" and "rooms s c = Some room"
    and "List.find (\<lambda>q. question_id q = qid) (questions (gameState room)) = Some q"
    and "q_to q = playerId cd" and "\<not> hasAnswer q" and "a \<noteq> []"
    and "roomCode cd' = Some c"
  shows "answerQuestion cd' qid a' (answerQuestion cd qid a s) = answerQuestion cd qid a s"
proof -
  let ?room1 = "room\<lparr>gameState :=
            (gameState room)\<lparr>questions := setAnswer qid a (questions (gameState room))\<rparr>\<rparr>"
  have s1: "rooms (answerQuestion cd qid a s) c = Some ?room1"
    by (simp add: answerQuestion_accepted [OF assms(1-5)])
  have f: "List.find (\<lambda>q. question_id q = qid) (questions (gameState ?room1))
           = Some (q\<lparr>answer := Some a\<rparr>)"
    using find_setAnswer [OF assms(3)] by simp
  have h: "hasAnswer (q\<lparr>answer := Some a\<rparr>)"
    using assms(6) by (simp add: hasAnswer_def)
  show ?thesis
    by (rule answerQuestion_ignored [OF assms(7) s1]) (use f h in auto)
qed

lemma startPhase_room_keeps:
  "rooms s c = Some room \<Longrightarrow>
   \<exists>room'. rooms (startPhase c ph d t s) c = Some room'
      \<and> phase (gameState room') = ph
      \<and> roundNumber (gameState room') = roundNumber (gameState room)
      \<and> players room' = players room"
  by (simp add: startPhase_eq startedRoom_def)

lemma advancePhase_keeps:
  assumes room: "rooms s c = Some room"
  shows "\<exists>room'. rooms (advancePhase c t s) c = Some room'
           \<and> phase (gameState room') = nextInOrder (phase (gameState room))
           \<and> roundNumber (gameState room') = roundNumber (gameState room)
           \<and> map fst (players room') = map fst (players room)"
proof (cases "phase (gameState room)")
  case ACCUSATIONS
  let ?r1 = "room\<lparr>players := acc_players (scoreRoom room),
                  gameState := (gameState room)\<lparr>results := Some
                     \<lparr>res_guiltyPlayerId = guiltyPlayerId (gameState room),
                      res_votes = acc_votes (scoreRoom room),
                      res_scores = acc_scores (scoreRoom room)\<rparr>\<rparr>\<rparr>"
  have r1: "rooms (calculateResults c t s) c = Some ?r1"
    by (simp add: calculateResults_rooms [OF room])
  from startPhase_room_keeps [OF r1, of RESULTS "PHASE_DURATIONS RESULTS" t] ACCUSATIONS
  show ?thesis
    unfolding advancePhase_cases [OF room] by (auto simp: nextInOrder_def scoreRoom_keys)
next
  case RESULTS
  then show ?thesis
    unfolding advancePhase_cases [OF room]
    by (simp add: nextInOrder_def modifyGameState_Some [OF room])
next
  case SETUP
  with startPhase_room_keeps [OF room, of ALIBI_CONSTRUCTION "PHASE_DURATIONS ALIBI_CONSTRUCTION" t]
  show ?thesis
    unfolding advancePhase_cases [OF room] by (auto simp: nextInOrder_def)
next
  case ALIBI_CONSTRUCTION
  with startPhase_room_keeps [OF room, of INTERROGATION "PHASE_DURATIONS INTERROGATION" t]
  show ?thesis
    unfolding advancePhase_cases [OF room] by (auto simp: nextInOrder_def)
next
  case INTERROGATION
  with startPhase_room_keeps [OF room, of ACCUSATIONS "PHASE_DURATIONS ACCUSATIONS" t]
  show ?thesis
    unfolding advancePhase_cases [OF room] by (auto simp: nextInOrder_def)
next
  case WAITING
  with room show ?thesis
    unfolding advancePhase_cases [OF room] by (simp add: nextInOrder_def)
next
  case EVIDENCE_DROP
  with room show ?thesis
    unfolding advancePhase_cases [OF room] by (simp add: nextInOrder_def)
qed

section \<open>Choosing the guilty player\<close>

text \<open>
  Claim C8, as stated, fails.  \<open>startGame\<close> takes the player at the drawn index among all
  current players and remembers nothing of earlier rounds (\<open>advancePhase\<close> has reset
  \<open>guiltyPlayerId\<close> to \<open>null\<close> by then).  In the lobby of four, round 1 is started with
  index 0 and run through its five phase changes; round 2, started with index 0 again,
  has the same guilty player \<open>p1\<close> although four players are in the room.
\<close>

theorem same_guilty_player_twice:
  "map_option (guiltyPlayerId \<circ> gameState) (rooms round1Server ''AB12'') = Some (Some ''p1'')
   \<and> map_option (phase \<circ> gameState) (rooms round1Done ''AB12'') = Some WAITING
   \<and> map_option (guiltyPlayerId \<circ> gameState) (rooms round2Server ''AB12'') = Some (Some ''p1'')
   \<and> map_option (roundNumber \<circ> gameState) (rooms round2Server ''AB12'') = Some 2
   \<and> map_option (map fst \<circ> players) (rooms round2Server ''AB12'')
       = Some [''p1'', ''p2'', ''p3'', ''p4'']"
proof -
  have keys: "map fst lobbyPlayers = [''p1'', ''p2'', ''p3'', ''p4'']"
    by (simp add: lobbyPlayers_def)
  have room: "rooms lobbyServer ''AB12'' = Some lobbyRoom"
    by (simp add: lobbyServer_def)
  have four: "4 \<le> length (players lobbyRoom)"
    by (simp add: lobbyRoom_def lobbyPlayers_def)
  have idx: "guiltyIndex env0 = 0" "guiltyIndex (env0\<lparr>now := 100000\<rparr>) = 0"
    by (simp_all add: env0_def)
  from startGame_effect [OF room four, of env0] obtain r0 where
    r0: "rooms round1Server ''AB12'' = Some r0" "players r0 = players lobbyRoom"
      "phase (gameState r0) = SETUP" "roundNumber (gameState r0) = 1"
      "guiltyPlayerId (gameState r0) = Some ''p1''"
    unfolding round1Server_def
    by (auto simp: lobbyRoom_def keys idx at_index_def newGameState_def)
  let ?s1 = "advancePhase ''AB12'' 6000 round1Server"
  let ?s2 = "advancePhase ''AB12'' 36000 ?s1"
  let ?s3 = "advancePhase ''AB12'' 66000 ?s2"
  let ?s4 = "advancePhase ''AB12'' 86000 ?s3"
  from advancePhase_keeps [OF r0(1), of 6000] r0 obtain r1 where
    r1: "rooms ?s1 ''AB12'' = Some r1" "phase (gameState r1) = ALIBI_CONSTRUCTION"
      "roundNumber (gameState r1) = 1" "map fst (players r1) = map fst lobbyPlayers"
    by (auto simp: nextInOrder_def lobbyRoom_def)
  from advancePhase_keeps [OF r1(1), of 36000] r1 obtain r2 where
    r2: "rooms ?s2 ''AB12'' = Some r2" "phase (gameState r2) = INTERROGATION"
      "roundNumber (gameState r2) = 1" "map fst (players r2) = map fst lobbyPlayers"
    by (auto simp: nextInOrder_def)
  from advancePhase_keeps [OF r2(1), of 66000] r2 obtain r3 where
    r3: "rooms ?s3 ''AB12'' = Some r3" "phase (gameState r3) = ACCUSATIONS"
      "roundNumber (gameState r3) = 1" "map fst (players r3) = map fst lobbyPlayers"
    by (auto simp: nextInOrder_def)
  from advancePhase_keeps [OF r3(1), of 86000] r3 obtain r4 where
    r4: "rooms ?s4 ''AB12'' = Some r4" "phase (gameState r4) = RESULTS"
      "roundNumber (gameState r4) = 1" "map fst (players r4) = map fst lobbyPlayers"
    by (auto simp: nextInOrder_def)
  from advancePhase_keeps [OF r4(1), of 96000] r4 obtain r5 where
    r5: "rooms round1Done ''AB12'' = Some r5" "phase (gameState r5) = WAITING"
      "roundNumber (gameState r5) = 1" "map fst (players r5) = map fst lobbyPlayers"
    unfolding round1Done_def by (auto simp: nextInOrder_def)
  have four5: "4 \<le> length (players r5)"
    using arg_cong [OF r5(4), of length] by (simp add: lobbyPlayers_def)
  from startGame_effect [OF r5(1) four5, of "env0\<lparr>now := 100000\<rparr>"] obtain r6 where
    r6: "rooms round2Server ''AB12'' = Some r6" "players r6 = players r5"
      "roundNumber (gameState r6) = 2" "guiltyPlayerId (gameState r6) = Some ''p1''"
    unfolding round2Server_def
    by (auto simp: r5 keys idx at_index_def)
  show ?thesis
    using r0 r5 r6 keys by simp
qed

text \<open>
  Claim C8, amended.  When \<open>startGame\<close> goes ahead (the room exists and has at least four
  players) and the drawn index \<open>Math.floor(Math.random() * playerIds.length)\<close> is below the
  number of players, as it is for every value of \<open>Math.random()\<close>, the new
  \<open>guiltyPlayerId\<close> is the id at that index of the room's players, hence one of them.
\<close>

theorem startGame_guilty_is_player:
  assumes "rooms s c = Some room" and "4 \<le> length (players room)"
    and "guiltyIndex env < length (players room)"
  shows "\<exists>room'. rooms (startGame (Some c) env s) c = Some room'
     \<and> players room' = players room
     \<and> guiltyPlayerId (gameState room') = Some (map fst (players room) ! guiltyIndex env)
     \<and> map fst (players room) ! guiltyIndex env \<in> fst ` set (players room')"
proof -
  from startGame_effect [OF assms(1,2), of env] obtain room' where
    r: "rooms (startGame (Some c) env s) c = Some room'" "players room' = players room"
      "guiltyPlayerId (gameState room') = at_index (map fst (players room)) (guiltyIndex env)"
    by blast
  have "map fst (players room) ! guiltyIndex env \<in> set (map fst (players room))"
    by (rule nth_mem) (use assms(3) in simp)
  with r assms(3) show ?thesis by (simp add: at_index_def)
qed

theorem startGame_guilty_is_player_witness:
  "rooms lobbyServer ''AB12'' = Some lobbyRoom
   \<and> 4 \<le> length (players lobbyRoom)
   \<and> guiltyIndex (env0\<lparr>guiltyIndex := 2\<rparr>) < length (players lobbyRoom)
   \<and> (\<exists>room'. rooms (startGame (Some ''AB12'') (env0\<lparr>guiltyIndex := 2\<rparr>) lobbyServer) ''AB12''
                  = Some room'
        \<and> guiltyPlayerId (gameState room') = Some ''p3''
        \<and> ''p3'' \<in> fst ` set (players room'))"
proof -
  have h1: "rooms lobbyServer ''AB12'' = Some lobbyRoom"
    by (simp add: lobbyServer_def)
  have h2: "4 \<le> length (players lobbyRoom)"
    by (simp add: lobbyRoom_def lobbyPlayers_def)
  have h3: "guiltyIndex (env0\<lparr>guiltyIndex := 2\<rparr>) < length (players lobbyRoom)"
    by (simp add: lobbyRoom_def lobbyPlayers_def)
  have third: "map fst (players lobbyRoom) ! guiltyIndex (env0\<lparr>guiltyIndex := 2\<rparr>) = ''p3''"
    by (simp add: lobbyRoom_def lobbyPlayers_def)
  from startGame_guilty_is_player [OF h1 h2 h3] third h1 h2 h3
  show ?thesis by auto
qed

lemma upper_base36:
  "list_all (\<lambda>ch. list_all codeChar (toUpperCase [ch])) ''0123456789abcdefghijklmnopqrstuvwxyz''"
  by code_simp

lemma toUpperCase_codeChar:
  assumes "list_all base36Char xs"
  shows "list_all codeChar (toUpperCase xs)"
proof -
  have one: "\<And>ch. base36Char ch \<Longrightarrow> codeChar (hd (toUpperCase [ch]))"
  proof -
    fix ch
    assume "base36Char ch"
    then have "ch \<in> set ''0123456789abcdefghijklmnopqrstuvwxyz''"
      by (simp only: base36Char_def)
    with upper_base36 have "list_all codeChar (toUpperCase [ch])"
      unfolding list_all_iff by blast
    then show "codeChar (hd (toUpperCase [ch]))"
      by (simp add: toUpperCase_def)
  qed
  have "\<And>ch. ch \<in> set xs \<Longrightarrow> codeChar (hd (toUpperCase [ch]))"
    using assms one by (simp add: list_all_iff)
  then show ?thesis
    by (simp add: list_all_iff toUpperCase_def)
qed

lemma length_generateRoomCode:
  "length (generateRoomCode r) = min 4 (length r - 2)"
  by (simp add: generateRoomCode_def toUpperCase_def)

section \<open>Creating a room\<close>

text \<open>
  Claim C6, as stated, fails.  \<open>createRoom\<close> calls \<open>generateRoomCode\<close> once and stores
  the room with \<open>rooms.set\<close>: it neither looks the code up nor retries.  After the first
  client has created room AB12 and joined it, a second \<open>CREATE_ROOM\<close> for which
  \<open>Math.random()\<close> yields the same digits replaces that room by an empty one hosted by
  the second client.  The code is also shorter than four characters when the base-36
  expansion is short: 0.5 prints as \<open>0.i\<close> and gives the code \<open>I\<close>.
\<close>

theorem createRoom_replaces_existing_room:
  "map_option (map fst \<circ> players) (rooms (run (initServer []) collisionEvents) ''AB12'')
     = Some [''p1'']
   \<and> map_option host (rooms (run (initServer []) collisionEvents) ''AB12'') = Some ''p1''
   \<and> map_option (map fst \<circ> players)
        (rooms (run (initServer []) (collisionEvents @ [Message 2 CREATE_ROOM env0])) ''AB12'')
     = Some []
   \<and> map_option host
        (rooms (run (initServer []) (collisionEvents @ [Message 2 CREATE_ROOM env0])) ''AB12'')
     = Some ''p2''
   \<and> generateRoomCode ''0.i'' = ''I''"
  by code_simp

text \<open>
  Claim C6, amended.  The code \<open>createRoom\<close> uses is the upper-cased characters 2 to 5 of
  \<open>Math.random().toString(36)\<close>: at most four characters, exactly four when that string
  has at least six, and digits or upper-case letters when those characters are base-36
  digits.  \<open>createRoom\<close> registers under that code a new room in phase \<open>WAITING\<close> with no
  players, no timers and an empty round state, hosted by the caller, in place of whatever
  room was registered under the code; every other code keeps its room.  Besides taking a
  fresh object identity it changes nothing else and writes one message,
  \<open>ROOM_CREATED\<close>, to the caller's socket if that is open.
\<close>

theorem createRoom_effect:
  "length (generateRoomCode (randomBase36 env)) \<le> 4
   \<and> (6 \<le> length (randomBase36 env) \<longrightarrow> length (generateRoomCode (randomBase36 env)) = 4)
   \<and> (list_all base36Char (take 4 (drop 2 (randomBase36 env)))
        \<longrightarrow> list_all codeChar (generateRoomCode (randomBase36 env)))
   \<and> rooms (createRoom ws cd env s)
       = (rooms s)(generateRoomCode (randomBase36 env) \<mapsto>
            freshRoom (nextRef s) (generateRoomCode (randomBase36 env)) (playerId cd))
   \<and> phase newGameState = WAITING \<and> crime newGameState = None
   \<and> guiltyPlayerId newGameState = None \<and> alibis newGameState = []
   \<and> questions newGameState = [] \<and> votes newGameState = []
   \<and> currentEvidence newGameState = [] \<and> roundNumber newGameState = 0
   \<and> clients (createRoom ws cd env s) = clients s
   \<and> leaderboard (createRoom ws cd env s) = leaderboard s
   \<and> pending (createRoom ws cd env s) = pending s
   \<and> nextTimer (createRoom ws cd env s) = nextTimer s
   \<and> openSockets (createRoom ws cd env s) = openSockets s
   \<and> scoringRuns (createRoom ws cd env s) = scoringRuns s
   \<and> emitted s (createRoom ws cd env s)
       = (if ws \<in> set (openSockets s)
          then [(ws, ROOM_CREATED (generateRoomCode (randomBase36 env)))] else [])"
proof (intro conjI impI)
  show "length (generateRoomCode (randomBase36 env)) \<le> 4"
    by (simp add: length_generateRoomCode)
  show "length (generateRoomCode (randomBase36 env)) = 4" if "6 \<le> length (randomBase36 env)"
    using that by (simp add: length_generateRoomCode)
  show "list_all codeChar (generateRoomCode (randomBase36 env))"
    if "list_all base36Char (take 4 (drop 2 (randomBase36 env)))"
    unfolding generateRoomCode_def by (rule toUpperCase_codeChar [OF that])
  show "emitted s (createRoom ws cd env s)
       = (if ws \<in> set (openSockets s)
          then [(ws, ROOM_CREATED (generateRoomCode (randomBase36 env)))] else [])"
    by (simp add: emitted_def createRoom_def Let_def send_eq)
qed (simp_all add: createRoom_def Let_def freshRoom_def newGameState_def)

theorem createRoom_effect_witness:
  "6 \<le> length (randomBase36 env0)
   \<and> list_all base36Char (take 4 (drop 2 (randomBase36 env0)))
   \<and> generateRoomCode (randomBase36 env0) = ''AB12''
   \<and> length (generateRoomCode (randomBase36 env0)) = 4
   \<and> list_all codeChar (generateRoomCode (randomBase36 env0))
   \<and> rooms (createRoom 1 \<lparr>playerId = ''p1'', roomCode = None, playerName = None\<rparr> env0
              (initServer [])) ''AB12''
       = Some (freshRoom 0 ''AB12'' ''p1'')"
proof -
  have h1: "6 \<le> length (randomBase36 env0)"
    by (simp add: env0_def)
  have h2: "list_all base36Char (take 4 (drop 2 (randomBase36 env0)))"
    by (simp add: env0_def base36Char_def)
  have rc: "generateRoomCode (randomBase36 env0) = ''AB12''"
    by code_simp
  note eff = createRoom_effect [of env0 1 "\<lparr>playerId = ''p1'', roomCode = None, playerName = None\<rparr>"
      "initServer []"]
  from eff h1 have c1: "length (generateRoomCode (randomBase36 env0)) = 4" by blast
  from eff h2 have c2: "list_all codeChar (generateRoomCode (randomBase36 env0))" by blast
  from eff have "rooms (createRoom 1 \<lparr>playerId = ''p1'', roomCode = None, playerName = None\<rparr> env0
              (initServer []))
       = (rooms (initServer []))(generateRoomCode (randomBase36 env0) \<mapsto>
            freshRoom (nextRef (initServer [])) (generateRoomCode (randomBase36 env0))
              (playerId \<lparr>playerId = ''p1'', roomCode = None, playerName = None\<rparr>))"
    by blast
  then have c3: "rooms (createRoom 1 \<lparr>playerId = ''p1'', roomCode = None, playerName = None\<rparr> env0
              (initServer [])) ''AB12'' = Some (freshRoom 0 ''AB12'' ''p1'')"
    by (simp add: rc initServer_def)
  from h1 h2 rc c1 c2 c3 show ?thesis by blast
qed

lemma innocent_init: "innocent (initServer lb)"
  by (simp add: innocent_def initServer_def)

lemma innocent_fields [simp]:
  "innocent (s\<lparr>clients := cs\<rparr>) = innocent s"
  "innocent (s\<lparr>pending := ps\<rparr>) = innocent s"
  "innocent (s\<lparr>nextTimer := n\<rparr>) = innocent s"
  "innocent (s\<lparr>nextRef := n\<rparr>) = innocent s"
  "innocent (s\<lparr>openSockets := os\<rparr>) = innocent s"
  "innocent (s\<lparr>leaderboard := lb\<rparr>) = innocent s"
  "innocent (s\<lparr>scoringRuns := k\<rparr>) = innocent s"
  by (simp_all add: innocent_def)

lemma innocent_outbox:
  "innocent s \<Longrightarrow> \<forall>wm \<in> set ms. messageInnocent (snd wm) \<Longrightarrow>
   innocent (s\<lparr>outbox := outbox s @ ms\<rparr>)"
  by (auto simp: innocent_def)

lemma innocent_room_upd:
  "innocent s \<Longrightarrow> roomInnocent r \<Longrightarrow> innocent (s\<lparr>rooms := (rooms s)(c \<mapsto> r)\<rparr>)"
  by (auto simp: innocent_def)

lemma innocent_room_del:
  "innocent s \<Longrightarrow> innocent (s\<lparr>rooms := (rooms s)(c := None)\<rparr>)"
  by (auto simp: innocent_def)

lemma innocent_roomD: "innocent s \<Longrightarrow> rooms s c = Some r \<Longrightarrow> roomInnocent r"
  by (auto simp: innocent_def)

lemma delivery_innocent:
  "messageInnocent m \<Longrightarrow> \<forall>wm \<in> set (delivery pid m s). messageInnocent (snd wm)"
  by (auto simp: delivery_def split: option.splits)

lemma innocent_send: "innocent s \<Longrightarrow> messageInnocent m \<Longrightarrow> innocent (send ws m s)"
  by (simp add: send_eq innocent_outbox)

lemma innocent_broadcastToRoom:
  "innocent s \<Longrightarrow> messageInnocent m \<Longrightarrow> innocent (broadcastToRoom c m s)"
  unfolding broadcastToRoom_eq
  by (rule innocent_outbox) (auto split: option.splits dest: delivery_innocent [THEN bspec])

lemma snapshot_innocent:
  "roomInnocent r \<Longrightarrow> messageInnocent (PHASE_CHANGE (getPublicGameState r pid))"
  by (auto simp: messageInnocent_def roomInnocent_def playersInnocent_def
        getPublicGameState_def Let_def)

lemma phaseBroadcast_innocent:
  "roomInnocent r \<Longrightarrow> \<forall>wm \<in> set (phaseBroadcast r s). messageInnocent (snd wm)"
  by (auto simp: phaseBroadcast_def dest!: delivery_innocent [OF snapshot_innocent, THEN bspec])

lemma innocent_broadcastPhaseUpdate:
  "innocent s \<Longrightarrow> innocent (broadcastPhaseUpdate c s)"
proof (cases "rooms s c")
  case None
  assume "innocent s"
  with None show ?thesis by (simp add: broadcastPhaseUpdate_def)
next
  case (Some r)
  assume i: "innocent s"
  show ?thesis
    unfolding broadcastPhaseUpdate_Some [OF Some]
    by (rule innocent_outbox [OF i phaseBroadcast_innocent [OF innocent_roomD [OF i Some]]])
qed

lemma innocent_modifyRoom:
  assumes "innocent s" and "\<And>r. roomInnocent r \<Longrightarrow> roomInnocent (f r)"
  shows "innocent (modifyRoom c f s)"
proof (cases "rooms s c")
  case None
  with assms(1) show ?thesis by (simp add: modifyRoom_def)
next
  case (Some r)
  show ?thesis
    unfolding modifyRoom_Some [OF Some]
    by (rule innocent_room_upd [OF assms(1) assms(2) [OF innocent_roomD [OF assms(1) Some]]])
qed

lemma innocent_modifyGameState: "innocent s \<Longrightarrow> innocent (modifyGameState c f s)"
  unfolding modifyGameState_def
  by (rule innocent_modifyRoom) (simp_all add: roomInnocent_def)

lemma innocent_startPhase: "innocent s \<Longrightarrow> innocent (startPhase c ph d t s)"
proof (cases "rooms s c")
  case None
  assume "innocent s"
  with None show ?thesis by (simp add: startPhase_None)
next
  case (Some r)
  assume i: "innocent s"
  from innocent_roomD [OF i Some] have ri: "roomInnocent r" .
  have r1: "roomInnocent (startedRoom c r ph d t (nextTimer s))"
    using ri by (simp add: roomInnocent_def startedRoom_def)
  have r2: "roomInnocent (r\<lparr>gameState := (gameState r)\<lparr>phase := ph, phaseStartTime := Some t\<rparr>,
                  timers := (timers r)\<lparr>evidenceTimers := []\<rparr>\<rparr>)"
    using ri by (simp add: roomInnocent_def)
  show ?thesis
    unfolding startPhase_eq [OF Some]
    using i r1 phaseBroadcast_innocent [OF r2, of s]
    by (auto simp: innocent_def)
qed

lemma update_set:
  "x \<in> set (AList.update k v al) \<Longrightarrow> x \<in> set al \<or> x = (k, v)"
  by (induction al) (auto split: if_splits)

lemma update_innocent:
  "playersInnocent al \<Longrightarrow> \<not> isGuilty v \<Longrightarrow> playersInnocent (AList.update k v al)"
  by (auto simp: playersInnocent_def dest!: update_set)

lemma lookup_innocent:
  "playersInnocent al \<Longrightarrow> map_of al k = Some p \<Longrightarrow> \<not> isGuilty p"
  by (auto simp: playersInnocent_def dest!: map_of_SomeD)

lemma scoreVote_innocent:
  "playersInnocent (acc_players acc) \<Longrightarrow> playersInnocent (acc_players (scoreVote g acc vv))"
  by (cases "map_of (acc_players acc) (fst vv)")
     (auto simp: scoreVote_def Let_def intro!: update_innocent dest: lookup_innocent)

lemma foldl_scoreVote_innocent:
  "playersInnocent (acc_players acc) \<Longrightarrow>
   playersInnocent (acc_players (foldl (scoreVote g) acc vs))"
  by (induction vs arbitrary: acc) (simp_all add: scoreVote_innocent)

lemma awardGuilty_innocent:
  "playersInnocent (acc_players acc) \<Longrightarrow> playersInnocent (acc_players (awardGuilty g acc))"
  by (auto simp: awardGuilty_def Let_def split: option.splits
           intro!: update_innocent dest: lookup_innocent)

lemma scoreRoom_innocent:
  "roomInnocent r \<Longrightarrow> playersInnocent (acc_players (scoreRoom r))"
  unfolding scoreRoom_def roomInnocent_def
  by (rule awardGuilty_innocent, rule foldl_scoreVote_innocent) simp

lemma innocent_addToLeaderboard: "innocent s \<Longrightarrow> innocent (addToLeaderboard nm sc t s)"
  by (auto simp: addToLeaderboard_def broadcastLeaderboard_def foldl_send_eq innocent_def
        messageInnocent_def split: if_splits)

lemma innocent_foldl_leaderboard:
  "innocent s \<Longrightarrow>
   innocent (foldl (\<lambda>s' pp. if P pp then addToLeaderboard (f pp) (g pp) t s' else s') s ps)"
  by (induction ps arbitrary: s) (simp_all add: innocent_addToLeaderboard)

lemma innocent_calculateResults: "innocent s \<Longrightarrow> innocent (calculateResults c t s)"
proof (cases "rooms s c")
  case None
  assume "innocent s"
  with None show ?thesis by (simp add: calculateResults_def)
next
  case (Some r)
  assume i: "innocent s"
  have "innocent (modifyRoom c
          (\<lambda>r'. r'\<lparr>players := acc_players (scoreRoom r),
                   gameState := (gameState r')\<lparr>results := Some
                     \<lparr>res_guiltyPlayerId = guiltyPlayerId (gameState r),
                      res_votes = acc_votes (scoreRoom r),
                      res_scores = acc_scores (scoreRoom r)\<rparr>\<rparr>\<rparr>)
          (s\<lparr>scoringRuns := Suc (scoringRuns s)\<rparr>))"
    using i scoreRoom_innocent [OF innocent_roomD [OF i Some]]
    by (intro innocent_modifyRoom) (simp_all add: roomInnocent_def)
  then show ?thesis
    using Some by (simp add: calculateResults_def Let_def innocent_foldl_leaderboard)
qed

lemma innocent_startGame: "innocent s \<Longrightarrow> innocent (startGame rc env s)"
  by (auto simp: startGame_def innocent_startPhase innocent_modifyGameState
           split: option.splits)

lemma innocent_advancePhase: "innocent s \<Longrightarrow> innocent (advancePhase c t s)"
  by (auto simp: advancePhase_def Let_def innocent_startPhase innocent_modifyGameState
        innocent_calculateResults innocent_broadcastPhaseUpdate
        split: option.splits)

lemma innocent_createRoom: "innocent s \<Longrightarrow> innocent (createRoom ws cd env s)"
  unfolding createRoom_def Let_def
  by (rule innocent_send)
     (auto simp: innocent_def roomInnocent_def playersInnocent_def messageInnocent_def)

lemma delete_innocent: "playersInnocent al \<Longrightarrow> playersInnocent (AList.delete k al)"
  by (auto simp: playersInnocent_def AList.delete_eq)

lemma innocent_joinRoom: "innocent s \<Longrightarrow> innocent (joinRoom ws cd rc nm s)"
proof (cases "rooms s rc")
  case None
  assume "innocent s"
  with None show ?thesis
    by (simp add: joinRoom_def innocent_send messageInnocent_def)
next
  case (Some room)
  assume i: "innocent s"
  let ?player = "\<lparr>player_id = playerId cd, player_name = nm,
                   color = COLORS ! (length (players room) mod 8),
                   avatar = AVATARS ! (length (players room) mod 8),
                   score = 0, isGuilty = False\<rparr>"
  let ?room' = "room\<lparr>players := AList.update (playerId cd) ?player (players room)\<rparr>"
  from innocent_roomD [OF i Some] have ri: "roomInnocent room" .
  have ri': "roomInnocent ?room'"
    using ri by (simp add: roomInnocent_def update_innocent)
  let ?s2 = "s\<lparr>clients := AList.update ws (cd\<lparr>roomCode := Some rc, playerName := Some nm\<rparr>) (clients s),
               rooms := (rooms s)(rc \<mapsto> ?room')\<rparr>"
  have i2: "innocent ?s2"
    using i ri' by (auto simp: innocent_def)
  have m1: "messageInnocent (PLAYER_JOINED ?player (length (players ?room')))"
    by (simp add: messageInnocent_def)
  have m2: "messageInnocent (ROOM_JOINED rc (map snd (players ?room'))
                               (getPublicGameState ?room' (playerId cd)))"
    using ri' by (auto simp: messageInnocent_def roomInnocent_def playersInnocent_def
                        getPublicGameState_def Let_def)
  have ok: "innocent (send ws (ROOM_JOINED rc (map snd (players ?room'))
                               (getPublicGameState ?room' (playerId cd)))
                   (broadcastToRoom rc (PLAYER_JOINED ?player (length (players ?room'))) ?s2))"
    by (intro innocent_send innocent_broadcastToRoom i2 m1 m2)
  consider (full) "length (players room) \<ge> 8"
    | (busy) "length (players room) < 8" "phase (gameState room) \<noteq> WAITING"
    | (join) "length (players room) < 8" "phase (gameState room) = WAITING"
    by linarith
  then show ?thesis
  proof cases
    case full
    with i Some show ?thesis
      by (simp add: joinRoom_def innocent_send messageInnocent_def)
  next
    case busy
    with i Some show ?thesis
      by (simp add: joinRoom_def innocent_send messageInnocent_def)
  next
    case join
    have "joinRoom ws cd rc nm s =
        send ws (ROOM_JOINED rc (map snd (players ?room'))
                               (getPublicGameState ?room' (playerId cd)))
                   (broadcastToRoom rc (PLAYER_JOINED ?player (length (players ?room'))) ?s2)"
      using Some join by (simp add: joinRoom_def Let_def)
    with ok show ?thesis by simp
  qed
qed

lemma innocent_submitAlibi: "innocent s \<Longrightarrow> innocent (submitAlibi cd a s)"
  by (auto simp: submitAlibi_def messageInnocent_def split: option.splits
           intro!: innocent_broadcastToRoom innocent_modifyGameState)

lemma innocent_askQuestion: "innocent s \<Longrightarrow> innocent (askQuestion cd toId q env s)"
  by (auto simp: askQuestion_def Let_def messageInnocent_def split: option.splits
           intro!: innocent_broadcastToRoom innocent_modifyGameState)

lemma innocent_answerQuestion: "innocent s \<Longrightarrow> innocent (answerQuestion cd qid a s)"
  by (auto simp: answerQuestion_def messageInnocent_def split: option.splits
           intro!: innocent_broadcastToRoom innocent_modifyGameState)

lemma innocent_submitVote: "innocent s \<Longrightarrow> innocent (submitVote cd suspect conf s)"
  by (auto simp: submitVote_def messageInnocent_def split: option.splits
           intro!: innocent_broadcastToRoom innocent_modifyGameState)

lemma innocent_handleMessage: "innocent s \<Longrightarrow> innocent (handleMessage ws m env s)"
  by (cases m)
     (auto simp: handleMessage_def innocent_createRoom innocent_joinRoom innocent_startGame
        innocent_submitAlibi innocent_askQuestion innocent_answerQuestion innocent_submitVote
        split: option.splits)

lemma innocent_handleDisconnect: "innocent s \<Longrightarrow> innocent (handleDisconnect ws s)"
proof (cases "map_of (clients s) ws")
  case None
  assume "innocent s"
  with None show ?thesis by (simp add: handleDisconnect_def)
next
  case (Some cd)
  assume i: "innocent s"
  have leave: "\<And>c room. rooms s c = Some room \<Longrightarrow>
      innocent (broadcastToRoom c
                  (PLAYER_LEFT (playerId cd) (length (AList.delete (playerId cd) (players room))))
                  (s\<lparr>rooms := (rooms s)(c \<mapsto> room\<lparr>players := AList.delete (playerId cd) (players room)\<rparr>)\<rparr>))"
  proof -
    fix c room
    assume r: "rooms s c = Some room"
    from innocent_roomD [OF i r]
    have "roomInnocent (room\<lparr>players := AList.delete (playerId cd) (players room)\<rparr>)"
      by (simp add: roomInnocent_def delete_innocent)
    from innocent_room_upd [OF i this]
    show "innocent (broadcastToRoom c
                  (PLAYER_LEFT (playerId cd) (length (AList.delete (playerId cd) (players room))))
                  (s\<lparr>rooms := (rooms s)(c \<mapsto> room\<lparr>players := AList.delete (playerId cd) (players room)\<rparr>)\<rparr>))"
      by (rule innocent_broadcastToRoom) (simp add: messageInnocent_def)
  qed
  have shrink: "\<And>x c. innocent x \<Longrightarrow> innocent (x\<lparr>rooms := (rooms x)(c := None)\<rparr>)"
    by (rule innocent_room_del)
  show ?thesis
  proof (cases "roomCode cd")
    case None
    with Some i show ?thesis by (simp add: handleDisconnect_def)
  next
    case rc: (Some c)
    show ?thesis
    proof (cases "c = [] \<or> rooms s c = None")
      case True
      with Some rc i show ?thesis by (auto simp: handleDisconnect_def)
    next
      case False
      then obtain room where r: "rooms s c = Some room" and ne: "c \<noteq> []" by auto
      let ?sb = "broadcastToRoom c
                  (PLAYER_LEFT (playerId cd) (length (AList.delete (playerId cd) (players room))))
                  (s\<lparr>rooms := (rooms s)(c \<mapsto> room\<lparr>players := AList.delete (playerId cd) (players room)\<rparr>)\<rparr>)"
      have eq: "handleDisconnect ws s =
          (let s1 = (if length (AList.delete (playerId cd) (players room)) = 0
                     then ?sb\<lparr>rooms := (rooms ?sb)(c := None)\<rparr> else ?sb)
           in s1\<lparr>clients := AList.delete ws (clients s1)\<rparr>)"
        using Some rc r ne by (simp add: handleDisconnect_def Let_def)
      show ?thesis
      proof (cases "length (AList.delete (playerId cd) (players room)) = 0")
        case True
        have "innocent (?sb\<lparr>rooms := (rooms ?sb)(c := None)\<rparr>)"
          by (rule shrink [OF leave [OF r]])
        then show ?thesis
          unfolding eq Let_def by (simp only: if_P [OF True] innocent_fields)
      next
        case False
        from leave [OF r] show ?thesis
          unfolding eq Let_def by (simp only: if_not_P [OF False] innocent_fields)
      qed
    qed
  qed
qed

lemma innocent_onConnection: "innocent s \<Longrightarrow> innocent (onConnection ws pid s)"
  unfolding onConnection_def
  by (rule innocent_send) (simp_all add: innocent_def messageInnocent_def)

lemma innocent_fireTimer: "innocent s \<Longrightarrow> innocent (fireTimer h env s)"
  by (auto simp: fireTimer_def Let_def clearTimeout_def messageInnocent_def roomInnocent_def
           split: option.splits Callback.splits
           intro!: innocent_advancePhase innocent_broadcastToRoom innocent_modifyRoom)

lemma innocent_step: "innocent s \<Longrightarrow> innocent (step s ev)"
  by (cases ev)
     (simp_all add: step_def innocent_onConnection innocent_handleMessage
        innocent_handleDisconnect innocent_fireTimer)

lemma innocent_run: "innocent s \<Longrightarrow> innocent (run s evs)"
  unfolding run_def by (induction evs arbitrary: s) (simp_all add: innocent_step)

section \<open>The isGuilty field of players\<close>

text \<open>
  Claim C10.  In every state the server reaches from its initial state, by any sequence
  of connections, messages, disconnections and timeouts, every player of every registered
  room has \<open>isGuilty\<close> false (\<open>roomInnocent\<close>), also the player who is the room's
  \<open>guiltyPlayerId\<close>; and every player carried by a message the server has written
  (\<open>messagePlayers\<close>: the players array of a snapshot in \<open>PHASE_CHANGE\<close> and \<open>ROOM_JOINED\<close>,
  the player list of \<open>ROOM_JOINED\<close>, the player of \<open>PLAYER_JOINED\<close>) has \<open>isGuilty\<close> false.
  The only \<open>isGuilty\<close> that can be true is the flag of the snapshot itself.
\<close>

theorem isGuilty_never_set:
  "(\<forall>c r. rooms (run (initServer lb) evs) c = Some r \<longrightarrow>
        (\<forall>pp \<in> set (players r). \<not> isGuilty (snd pp)))
   \<and> (\<forall>wm \<in> set (outbox (run (initServer lb) evs)).
        \<forall>p \<in> set (messagePlayers (snd wm)). \<not> isGuilty p)"
  using innocent_run [OF innocent_init, of lb evs]
  by (simp add: innocent_def roomInnocent_def playersInnocent_def messageInnocent_def)

theorem isGuilty_never_set_witness:
  "(case rooms startedServer ''AB12'' of
      None \<Rightarrow> False
    | Some r \<Rightarrow>
        guiltyPlayerId (gameState r) = Some ''p1''
        \<and> map fst (players r) = [''p1'', ''p2'', ''p3'', ''p4'']
        \<and> list_all (\<lambda>pp. \<not> isGuilty (snd pp)) (players r))
   \<and> length (outbox startedServer) = 23
   \<and> list_all (\<lambda>wm. list_all (\<lambda>p. \<not> isGuilty p) (messagePlayers (snd wm)))
        (outbox startedServer)"
proof -
  have ev: "(case rooms startedServer ''AB12'' of
      None \<Rightarrow> False
    | Some r \<Rightarrow>
        guiltyPlayerId (gameState r) = Some ''p1''
        \<and> map fst (players r) = [''p1'', ''p2'', ''p3'', ''p4''])
    \<and> length (outbox startedServer) = 23"
    by code_simp
  then obtain r where r: "rooms startedServer ''AB12'' = Some r"
    by (cases "rooms startedServer ''AB12''") auto
  note inv = isGuilty_never_set [of "[]" "lobbyEvents @ [Message 1 START_GAME env0]",
      folded startedServer_def]
  from inv r have a: "list_all (\<lambda>pp. \<not> isGuilty (snd pp)) (players r)"
    unfolding list_all_iff by blast
  from inv have b: "list_all (\<lambda>wm. list_all (\<lambda>p. \<not> isGuilty p) (messagePlayers (snd wm)))
        (outbox startedServer)"
    unfolding list_all_iff by blast
  from ev r a b show ?thesis by simp
qed

lemma timersOk_init: "timersOk (initServer lb)"
  by (simp add: timersOk_def timersOkBut_def initServer_def)

lemma timersOkBut_weaken: "timersOkBut X s \<Longrightarrow> X \<subseteq> Y \<Longrightarrow> timersOkBut Y s"
  by (fastforce simp: timersOkBut_def split: option.splits)

lemma recordedIn_cong:
  "timers r' = timers r \<Longrightarrow> room_ref r' = room_ref r \<Longrightarrow> recordedIn r' t = recordedIn r t"
  by (simp add: recordedIn_def split: Callback.splits)

lemma inPhase_cong:
  "phase (gameState r') = phase (gameState r) \<Longrightarrow> inPhase r' t = inPhase r t"
  by (simp add: inPhase_def split: Callback.splits)

lemma sameTimers_refl [simp]: "sameTimers s s"
  by (simp add: sameTimers_def)

lemma sameTimers_trans: "sameTimers s s' \<Longrightarrow> sameTimers s' s'' \<Longrightarrow> sameTimers s s''"
  unfolding sameTimers_def by (metis (no_types, lifting))

lemma sameTimers_frame:
  assumes ok: "timersOkBut X s" and same: "sameTimers s s'"
  shows "timersOkBut X s'"
  unfolding timersOkBut_def
proof (intro conjI ballI)
  show "distinct (map timer_id (pending s'))"
    using ok same by (simp add: timersOkBut_def sameTimers_def)
next
  fix t
  assume "t \<in> set (pending s')"
  with same have t: "t \<in> set (pending s)" by (simp add: sameTimers_def)
  with ok same show "timer_id t < nextTimer s'"
    by (simp add: timersOkBut_def sameTimers_def)
  show "case rooms s' (targetOf t) of None \<Rightarrow> True
        | Some r \<Rightarrow> recordedIn r t \<and> (targetOf t \<notin> X \<longrightarrow> inPhase r t)"
  proof (cases "rooms s' (targetOf t)")
    case None
    then show ?thesis by simp
  next
    case (Some r')
    with same obtain r where r: "rooms s (targetOf t) = Some r" "timers r' = timers r"
      "room_ref r' = room_ref r" "phase (gameState r') = phase (gameState r)"
      unfolding sameTimers_def by blast
    from ok t r(1) have "recordedIn r t \<and> (targetOf t \<notin> X \<longrightarrow> inPhase r t)"
      by (fastforce simp: timersOkBut_def)
    with Some r show ?thesis
      by (simp add: recordedIn_cong [of r' r] inPhase_cong [of r' r])
  qed
qed

lemma sameTimers_outbox [simp]: "sameTimers s (s\<lparr>outbox := ob\<rparr>)"
  by (simp add: sameTimers_def)

lemma sameTimers_send [simp]: "sameTimers s (send ws m s)"
  by (simp add: send_eq)

lemma sameTimers_broadcastToRoom [simp]: "sameTimers s (broadcastToRoom c m s)"
  by (simp add: broadcastToRoom_eq)

lemma sameTimers_broadcastPhaseUpdate [simp]: "sameTimers s (broadcastPhaseUpdate c s)"
  by (simp add: broadcastPhaseUpdate_eq)

lemma sameTimers_modifyRoom:
  assumes "\<And>r. timers (f r) = timers r \<and> room_ref (f r) = room_ref r
                \<and> phase (gameState (f r)) = phase (gameState r)"
  shows "sameTimers s (modifyRoom c f s)"
  using assms by (auto simp: sameTimers_def modifyRoom_def split: option.splits)

lemma sameTimers_modifyGameState:
  assumes "\<And>g. phase (f g) = phase g"
  shows "sameTimers s (modifyGameState c f s)"
  unfolding modifyGameState_def by (rule sameTimers_modifyRoom) (simp add: assms)

lemma sameTimers_then_send:
  "sameTimers s s' \<Longrightarrow> sameTimers s (send ws m s')"
  by (erule sameTimers_trans) simp

lemma sameTimers_then_broadcast:
  "sameTimers s s' \<Longrightarrow> sameTimers s (broadcastToRoom c m s')"
  by (erule sameTimers_trans) simp

lemma sameTimers_submitAlibi: "sameTimers s (submitAlibi cd a s)"
  by (auto simp: submitAlibi_def split: option.splits
           intro!: sameTimers_then_broadcast sameTimers_modifyGameState)

lemma sameTimers_askQuestion: "sameTimers s (askQuestion cd toId q env s)"
  by (auto simp: askQuestion_def Let_def split: option.splits
           intro!: sameTimers_then_broadcast sameTimers_modifyGameState)

lemma sameTimers_answerQuestion: "sameTimers s (answerQuestion cd qid a s)"
  by (auto simp: answerQuestion_def split: option.splits
           intro!: sameTimers_then_broadcast sameTimers_modifyGameState)

lemma sameTimers_submitVote: "sameTimers s (submitVote cd suspect conf s)"
  by (auto simp: submitVote_def split: option.splits
           intro!: sameTimers_then_broadcast sameTimers_modifyGameState)

lemma sameTimers_onConnection: "sameTimers s (onConnection ws pid s)"
  unfolding onConnection_def
  by (rule sameTimers_then_send) (simp add: sameTimers_def)

lemma sameTimers_joinRoom: "sameTimers s (joinRoom ws cd rc nm s)"
proof (cases "rooms s rc")
  case None
  then show ?thesis by (simp add: joinRoom_def)
next
  case (Some room)
  show ?thesis
    using Some
    by (auto simp: joinRoom_def Let_def
             intro!: sameTimers_then_send sameTimers_then_broadcast)
       (auto simp: sameTimers_def)
qed

lemma sameTimers_handleDisconnect: "sameTimers s (handleDisconnect ws s)"
proof (cases "map_of (clients s) ws")
  case None
  then show ?thesis by (simp add: handleDisconnect_def)
next
  case (Some cd)
  show ?thesis
  proof (cases "roomCode cd")
    case None
    with Some show ?thesis by (simp add: handleDisconnect_def sameTimers_def)
  next
    case rc: (Some c)
    show ?thesis
    proof (cases "c = [] \<or> rooms s c = None")
      case True
      with Some rc show ?thesis by (auto simp: handleDisconnect_def sameTimers_def)
    next
      case False
      then obtain room where r: "rooms s c = Some room" and ne: "c \<noteq> []" by auto
      show ?thesis
        using Some rc r ne
        by (auto simp: handleDisconnect_def Let_def sameTimers_def split: if_splits)
    qed
  qed
qed

lemma sameTimers_addToLeaderboard: "sameTimers s (addToLeaderboard nm sc t s)"
  by (simp add: sameTimers_def)

lemma sameTimers_calculateResults: "sameTimers s (calculateResults c t s)"
proof (cases "rooms s c")
  case None
  then show ?thesis by (simp add: calculateResults_def)
next
  case (Some room)
  then show ?thesis
    by (auto simp: sameTimers_def calculateResults_rooms calculateResults_proj split: if_splits)
qed

lemma newEvidenceTimers_ids:
  "map timer_id (newEvidenceTimers c ref n es) = [n ..< n + length es]"
  by (induction es arbitrary: n) (simp_all add: upt_conv_Cons del: upt_Suc)

lemma newEvidenceTimers_callback:
  "tm \<in> set (newEvidenceTimers c ref n es) \<Longrightarrow> \<exists>e. callback tm = RevealEvidenceCb ref c e"
  by (induction es arbitrary: n) auto

lemma armedPhase_cases:
  "armedPhase c d n = [] \<or> (\<exists>d'. armedPhase c d n = [\<lparr>timer_id = n, delay = d', callback = AdvancePhaseCb c\<rparr>])"
  by (auto simp: armedPhase_def split: option.splits)

lemma armedEvidence_ids:
  "map timer_id (armedEvidence c room ph n) = [n ..< n + length (armedEvidence c room ph n)]"
  by (auto simp: armedEvidence_def newEvidenceTimers_ids split: option.splits)

lemma armedEvidence_member:
  "tm \<in> set (armedEvidence c room ph n) \<Longrightarrow>
   ph = INTERROGATION \<and> (\<exists>e. callback tm = RevealEvidenceCb (room_ref room) c e)"
  by (cases "ph = INTERROGATION"; cases "crime (gameState room)")
     (auto simp: armedEvidence_def dest: newEvidenceTimers_callback)

lemma recordedIn_handle:
  "recordedIn r t \<Longrightarrow> timer_id t \<in> roomHandles r"
  by (auto simp: recordedIn_def roomHandles_def split: Callback.splits)

lemma startPhase_timersOk:
  assumes ok: "timersOkBut {c} s" and ph: "ph \<noteq> WAITING"
  shows "timersOk (startPhase c ph d t s)"
proof (cases "rooms s c")
  case None
  have "timersOkBut {} s"
    unfolding timersOkBut_def
  proof (intro conjI ballI)
    show "distinct (map timer_id (pending s))" using ok by (simp add: timersOkBut_def)
  next
    fix tm assume tm: "tm \<in> set (pending s)"
    with ok show "timer_id tm < nextTimer s" by (simp add: timersOkBut_def)
    from ok tm have c: "case rooms s (targetOf tm) of None \<Rightarrow> True
        | Some r \<Rightarrow> recordedIn r tm \<and> (targetOf tm \<notin> {c} \<longrightarrow> inPhase r tm)"
      by (simp add: timersOkBut_def)
    show "case rooms s (targetOf tm) of None \<Rightarrow> True
        | Some r \<Rightarrow> recordedIn r tm \<and> (targetOf tm \<notin> {} \<longrightarrow> inPhase r tm)"
    proof (cases "targetOf tm = c")
      case True
      with None show ?thesis by simp
    next
      case False
      with c show ?thesis by (simp split: option.splits)
    qed
  qed
  with None show ?thesis by (simp add: startPhase_None timersOk_def)
next
  case (Some room)
  let ?n = "nextTimer s"
  let ?F = "filter (\<lambda>tm. timer_id tm \<notin> roomHandles room) (pending s)"
  let ?AP = "armedPhase c d ?n"
  let ?AE = "armedEvidence c room ph (?n + length ?AP)"
  let ?R = "startedRoom c room ph d t ?n"
  let ?s' = "startPhase c ph d t s"
  have pend: "pending ?s' = ?F @ ?AP @ ?AE"
    and nxt: "nextTimer ?s' = ?n + length ?AP + length ?AE"
    and rms: "rooms ?s' = (rooms s)(c \<mapsto> ?R)"
    by (simp_all add: startPhase_eq [OF Some])
  have old_lt: "\<And>tm. tm \<in> set (pending s) \<Longrightarrow> timer_id tm < ?n"
    using ok by (simp add: timersOkBut_def)
  have old_d: "distinct (map timer_id (pending s))"
    using ok by (simp add: timersOkBut_def)
  have AP_id: "\<And>tm. tm \<in> set ?AP \<Longrightarrow> timer_id tm = ?n \<and> callback tm = AdvancePhaseCb c"
    using armedPhase_cases [of c d ?n] by auto
  have AP_len: "length ?AP \<le> 1"
    using armedPhase_cases [of c d ?n] by auto
  have AE_ids: "map timer_id ?AE = [?n + length ?AP ..< ?n + length ?AP + length ?AE]"
    by (rule armedEvidence_ids)
  have AE_id: "\<And>tm. tm \<in> set ?AE \<Longrightarrow> ?n + length ?AP \<le> timer_id tm
                    \<and> timer_id tm < ?n + length ?AP + length ?AE"
  proof -
    fix tm assume "tm \<in> set ?AE"
    then have "timer_id tm \<in> set (map timer_id ?AE)" by simp
    then show "?n + length ?AP \<le> timer_id tm \<and> timer_id tm < ?n + length ?AP + length ?AE"
      unfolding AE_ids by simp
  qed
  have R_phase: "phase (gameState ?R) = ph" and R_ref: "room_ref ?R = room_ref room"
    and R_ev: "evidenceTimers (timers ?R) = map timer_id ?AE"
    and R_pt: "?AP \<noteq> [] \<Longrightarrow> phaseTimer (timers ?R) = Some ?n"
    by (simp_all add: startedRoom_def)
  have dist: "distinct (map timer_id (?F @ ?AP @ ?AE))"
  proof -
    have dF: "distinct (map timer_id ?F)" using old_d by (rule distinct_map_filter)
    have dAP: "distinct (map timer_id ?AP)"
      using armedPhase_cases [of c d ?n] by auto
    have dAE: "distinct (map timer_id ?AE)" unfolding AE_ids by simp
    have x1: "set (map timer_id ?F) \<inter> set (map timer_id ?AP) = {}"
      using old_lt AP_id by fastforce
    have x2: "set (map timer_id ?F) \<inter> set (map timer_id ?AE) = {}"
      using old_lt AE_id by fastforce
    have x3: "set (map timer_id ?AP) \<inter> set (map timer_id ?AE) = {}"
      using AP_id AE_id by fastforce
    from dF dAP dAE x1 x2 x3 show ?thesis by (simp add: Int_Un_distrib)
  qed
  show ?thesis
    unfolding timersOk_def timersOkBut_def pend nxt rms
  proof (intro conjI ballI)
    show "distinct (map timer_id (?F @ ?AP @ ?AE))" by (rule dist)
  next
    fix tm
    assume "tm \<in> set (?F @ ?AP @ ?AE)"
    then consider (old) "tm \<in> set ?F" | (ap) "tm \<in> set ?AP" | (ae) "tm \<in> set ?AE" by auto
    then show "timer_id tm < ?n + length ?AP + length ?AE"
    proof cases
      case old then show ?thesis using old_lt [of tm] by simp
    next
      case ap
      then have "?AP \<noteq> []" by auto
      with AP_id [OF ap] show ?thesis by (cases ?AP) simp_all
    next
      case ae with AE_id [OF ae] show ?thesis by simp
    qed
  next
    fix tm
    assume "tm \<in> set (?F @ ?AP @ ?AE)"
    then consider (old) "tm \<in> set ?F" | (ap) "tm \<in> set ?AP" | (ae) "tm \<in> set ?AE" by auto
    then show "case ((rooms s)(c \<mapsto> ?R)) (targetOf tm) of None \<Rightarrow> True
        | Some r \<Rightarrow> recordedIn r tm \<and> (targetOf tm \<notin> {} \<longrightarrow> inPhase r tm)"
    proof cases
      case old
      then have tm: "tm \<in> set (pending s)" and nh: "timer_id tm \<notin> roomHandles room" by simp_all
      from ok tm have c: "case rooms s (targetOf tm) of None \<Rightarrow> True
          | Some r \<Rightarrow> recordedIn r tm \<and> (targetOf tm \<notin> {c} \<longrightarrow> inPhase r tm)"
        by (simp add: timersOkBut_def)
      show ?thesis
      proof (cases "targetOf tm = c")
        case True
        with c Some have "recordedIn room tm" by simp
        from recordedIn_handle [OF this] nh show ?thesis by simp
      next
        case False
        with c show ?thesis by (simp split: option.splits)
      qed
    next
      case ap
      then have ne: "?AP \<noteq> []" by auto
      from AP_id [OF ap] have id: "timer_id tm = ?n" and cb: "callback tm = AdvancePhaseCb c"
        by simp_all
      from cb have tg: "targetOf tm = c" by (simp add: targetOf_def)
      show ?thesis
        using R_pt [OF ne] R_phase ph
        by (simp add: tg recordedIn_def inPhase_def cb id)
    next
      case ae
      from armedEvidence_member [OF ae] obtain e where
        int: "ph = INTERROGATION" and cb: "callback tm = RevealEvidenceCb (room_ref room) c e"
        by blast
      from cb have tg: "targetOf tm = c" by (simp add: targetOf_def)
      have rec: "timer_id tm \<in> set (evidenceTimers (timers ?R))"
        unfolding R_ev using ae by simp
      have "recordedIn ?R tm"
        using rec R_ref by (simp add: recordedIn_def cb)
      moreover have "inPhase ?R tm"
        using R_phase int by (simp add: inPhase_def cb)
      ultimately show ?thesis
        by (simp add: tg)
    qed
  qed
qed

lemma timersOkBut_filter:
  "timersOkBut X s \<Longrightarrow> timersOkBut X (s\<lparr>pending := filter P (pending s)\<rparr>)"
  by (auto simp: timersOkBut_def distinct_map_filter)

lemma timersOkBut_untargeted:
  assumes "timersOkBut X s" and "\<forall>tm \<in> set (pending s). targetOf tm \<noteq> c"
  shows "timersOkBut X (s\<lparr>rooms := (rooms s)(c := x)\<rparr>)"
  using assms by (auto simp: timersOkBut_def)

lemma timersOkBut_modifyGameState:
  assumes "timersOkBut X s"
  shows "timersOkBut (insert c X) (modifyGameState c f s)"
proof (cases "rooms s c")
  case None
  with assms show ?thesis
    by (auto simp: modifyGameState_def modifyRoom_def intro: timersOkBut_weaken)
next
  case (Some room)
  show ?thesis
    unfolding modifyGameState_Some [OF Some] timersOkBut_def
  proof (intro conjI ballI)
    show "distinct (map timer_id (pending (s\<lparr>rooms := (rooms s)(c \<mapsto> room\<lparr>gameState := f (gameState room)\<rparr>)\<rparr>)))"
      using assms by (simp add: timersOkBut_def)
  next
    fix tm
    assume "tm \<in> set (pending (s\<lparr>rooms := (rooms s)(c \<mapsto> room\<lparr>gameState := f (gameState room)\<rparr>)\<rparr>))"
    then have tm: "tm \<in> set (pending s)" by simp
    with assms show "timer_id tm < nextTimer (s\<lparr>rooms := (rooms s)(c \<mapsto> room\<lparr>gameState := f (gameState room)\<rparr>)\<rparr>)"
      by (simp add: timersOkBut_def)
    from assms tm have c: "case rooms s (targetOf tm) of None \<Rightarrow> True
          | Some r \<Rightarrow> recordedIn r tm \<and> (targetOf tm \<notin> X \<longrightarrow> inPhase r tm)"
      by (simp add: timersOkBut_def)
    show "case rooms (s\<lparr>rooms := (rooms s)(c \<mapsto> room\<lparr>gameState := f (gameState room)\<rparr>)\<rparr>) (targetOf tm) of
            None \<Rightarrow> True
          | Some r \<Rightarrow> recordedIn r tm \<and> (targetOf tm \<notin> insert c X \<longrightarrow> inPhase r tm)"
    proof (cases "targetOf tm = c")
      case True
      with c Some have "recordedIn room tm" by simp
      then have "recordedIn (room\<lparr>gameState := f (gameState room)\<rparr>) tm"
        by (simp add: recordedIn_cong [of "room\<lparr>gameState := f (gameState room)\<rparr>" room])
      with True show ?thesis by simp
    next
      case False
      with c show ?thesis by (simp split: option.splits)
    qed
  qed
qed

lemma startGame_timersOk: "timersOk s \<Longrightarrow> timersOk (startGame rc env s)"
proof -
  assume ok: "timersOk s"
  have "\<And>c g. timersOk (startPhase c SETUP (PHASE_DURATIONS SETUP) (now env) (modifyGameState c g s))"
    using timersOkBut_modifyGameState [OF ok [unfolded timersOk_def]]
    by (intro startPhase_timersOk) simp_all
  with ok show ?thesis
    by (simp add: startGame_def split: option.splits)
qed

lemma advancePhase_timersOk:
  assumes ok: "timersOk s"
    and res: "\<And>room. rooms s c = Some room \<Longrightarrow> phase (gameState room) = RESULTS
               \<Longrightarrow> \<forall>tm \<in> set (pending s). targetOf tm \<noteq> c"
  shows "timersOk (advancePhase c t s)"
proof (cases "rooms s c")
  case None
  with ok show ?thesis by (simp add: advancePhase_None)
next
  case (Some room)
  have but: "timersOkBut {c} s"
    using ok unfolding timersOk_def by (rule timersOkBut_weaken) simp
  have sp: "\<And>ph d. ph \<noteq> WAITING \<Longrightarrow> timersOk (startPhase c ph d t s)"
    by (rule startPhase_timersOk [OF but])
  show ?thesis
  proof (cases "phase (gameState room)")
    case ACCUSATIONS
    have "timersOkBut {c} (calculateResults c t s)"
      by (rule sameTimers_frame [OF but sameTimers_calculateResults])
    from startPhase_timersOk [OF this, of RESULTS] ACCUSATIONS show ?thesis
      by (simp add: advancePhase_cases [OF Some])
  next
    case RESULTS
    from res [OF Some RESULTS] have un: "\<forall>tm \<in> set (pending s). targetOf tm \<noteq> c" .
    have "timersOk (s\<lparr>rooms := (rooms s)(c := Some (room\<lparr>gameState :=
              (gameState room)\<lparr>phase := WAITING, guiltyPlayerId := None\<rparr>\<rparr>))\<rparr>)"
      unfolding timersOk_def by (rule timersOkBut_untargeted [OF ok [unfolded timersOk_def] un])
    then have "timersOk (broadcastPhaseUpdate c (s\<lparr>rooms := (rooms s)(c := Some (room\<lparr>gameState :=
              (gameState room)\<lparr>phase := WAITING, guiltyPlayerId := None\<rparr>\<rparr>))\<rparr>))"
      unfolding timersOk_def by (rule sameTimers_frame) simp
    with RESULTS show ?thesis
      by (simp add: advancePhase_cases [OF Some] modifyGameState_Some [OF Some])
  qed (use ok sp in \<open>simp_all add: advancePhase_cases [OF Some]\<close>)
qed

lemma fireTimer_timersOk: "timersOk s \<Longrightarrow> timersOk (fireTimer h env s)"
proof (cases "List.find (\<lambda>tm. timer_id tm = h) (pending s)")
  case None
  assume "timersOk s"
  with None show ?thesis by (simp add: fireTimer_def)
next
  case (Some tm)
  assume ok: "timersOk s"
  from Some have tm: "tm \<in> set (pending s)" and id: "timer_id tm = h"
    by (auto simp: find_Some_iff)
  let ?s1 = "clearTimeout h s"
  have ok1: "timersOk ?s1"
    using ok unfolding timersOk_def clearTimeout_def by (rule timersOkBut_filter)
  show ?thesis
  proof (cases "callback tm")
    case (AdvancePhaseCb c)
    have "timersOk (advancePhase c (now env) ?s1)"
    proof (rule advancePhase_timersOk [OF ok1])
      fix room
      assume r1: "rooms ?s1 c = Some room" and ph: "phase (gameState room) = RESULTS"
      then have r: "rooms s c = Some room" by (simp add: clearTimeout_def)
      from AdvancePhaseCb have tg: "targetOf tm = c" by (simp add: targetOf_def)
      from ok tm r tg AdvancePhaseCb have rec: "phaseTimer (timers room) = Some h"
        by (fastforce simp: timersOk_def timersOkBut_def recordedIn_def id)
      show "\<forall>x \<in> set (pending ?s1). targetOf x \<noteq> c"
      proof
        fix x
        assume "x \<in> set (pending ?s1)"
        then have x: "x \<in> set (pending s)" and xh: "timer_id x \<noteq> h"
          by (simp_all add: clearTimeout_def)
        show "targetOf x \<noteq> c"
        proof
          assume xc: "targetOf x = c"
          with ok x r have rx: "recordedIn room x" and px: "inPhase room x"
            by (fastforce simp: timersOk_def timersOkBut_def)+
          show False
          proof (cases "callback x")
            case (AdvancePhaseCb c')
            with rx rec xh show False by (simp add: recordedIn_def)
          next
            case (RevealEvidenceCb ref c' e)
            with px ph show False by (simp add: inPhase_def)
          qed
        qed
      qed
    qed
    with Some AdvancePhaseCb show ?thesis by (simp add: fireTimer_def Let_def)
  next
    case (RevealEvidenceCb ref c e)
    let ?f = "\<lambda>r. if room_ref r = ref
                   then r\<lparr>gameState := (gameState r)\<lparr>currentEvidence := currentEvidence (gameState r) @ [e]\<rparr>\<rparr>
                   else r"
    have "sameTimers ?s1 (broadcastToRoom c (EVIDENCE_REVEALED e) (modifyRoom c ?f ?s1))"
      by (intro sameTimers_then_broadcast sameTimers_modifyRoom) simp
    from sameTimers_frame [OF ok1 [unfolded timersOk_def] this]
    show ?thesis
      using Some RevealEvidenceCb by (simp add: fireTimer_def Let_def timersOk_def)
  qed
qed

lemma createRoom_timersOk:
  assumes ok: "timersOk s"
    and un: "\<forall>tm \<in> set (pending s). targetOf tm \<noteq> generateRoomCode (randomBase36 env)"
  shows "timersOk (createRoom ws cd env s)"
proof -
  let ?rc = "generateRoomCode (randomBase36 env)"
  let ?room = "\<lparr>room_ref = nextRef s, code = ?rc, host = playerId cd, players = [],
                 gameState = newGameState,
                 timers = \<lparr>phaseTimer = None, evidenceTimers = []\<rparr>\<rparr>"
  have a: "timersOkBut {} (s\<lparr>rooms := (rooms s)(?rc := Some ?room)\<rparr>)"
    by (rule timersOkBut_untargeted [OF ok [unfolded timersOk_def] un])
  have b: "sameTimers (s\<lparr>rooms := (rooms s)(?rc := Some ?room)\<rparr>)
             (send ws (ROOM_CREATED ?rc) (s\<lparr>rooms := (rooms s)(?rc \<mapsto> ?room), nextRef := Suc (nextRef s)\<rparr>))"
    by (rule sameTimers_then_send) (simp add: sameTimers_def)
  from sameTimers_frame [OF a b] show ?thesis
    by (simp add: createRoom_def Let_def timersOk_def)
qed

lemma handleMessage_timersOk:
  assumes ok: "timersOk s" and safe: "safeEvent s (Message ws m env)"
  shows "timersOk (handleMessage ws m env s)"
proof (cases "map_of (clients s) ws")
  case None
  with ok show ?thesis by (simp add: handleMessage_def)
next
  case (Some cd)
  note fr = sameTimers_frame [OF ok [unfolded timersOk_def], folded timersOk_def]
  show ?thesis
  proof (cases m)
    case CREATE_ROOM
    with safe have "\<forall>tm \<in> set (pending s). targetOf tm \<noteq> generateRoomCode (randomBase36 env)"
      by (simp add: safeEvent_def)
    from createRoom_timersOk [OF ok this] Some CREATE_ROOM show ?thesis
      by (simp add: handleMessage_def)
  next
    case (JOIN_ROOM rc nm)
    with Some fr [OF sameTimers_joinRoom] show ?thesis by (simp add: handleMessage_def)
  next
    case START_GAME
    with Some startGame_timersOk [OF ok] show ?thesis by (simp add: handleMessage_def)
  next
    case (SUBMIT_ALIBI a)
    with Some fr [OF sameTimers_submitAlibi] show ?thesis by (simp add: handleMessage_def)
  next
    case (ASK_QUESTION toId q)
    with Some fr [OF sameTimers_askQuestion] show ?thesis by (simp add: handleMessage_def)
  next
    case (ANSWER_QUESTION qid a)
    with Some fr [OF sameTimers_answerQuestion] show ?thesis by (simp add: handleMessage_def)
  next
    case (SUBMIT_VOTE suspect conf)
    with Some fr [OF sameTimers_submitVote] show ?thesis by (simp add: handleMessage_def)
  qed
qed

lemma step_timersOk:
  assumes ok: "timersOk s" and safe: "safeEvent s ev"
  shows "timersOk (step s ev)"
proof (cases ev)
  case (Connection ws pid)
  with sameTimers_frame [OF ok [unfolded timersOk_def] sameTimers_onConnection]
  show ?thesis by (simp add: step_def timersOk_def)
next
  case (Message ws m env)
  with handleMessage_timersOk [OF ok] safe show ?thesis by (simp add: step_def)
next
  case (SocketNotOpen ws)
  have "sameTimers s (s\<lparr>openSockets := removeAll ws (openSockets s)\<rparr>)"
    by (simp add: sameTimers_def)
  from sameTimers_frame [OF ok [unfolded timersOk_def] this] SocketNotOpen
  show ?thesis by (simp add: step_def timersOk_def)
next
  case (Close ws)
  have "sameTimers s (handleDisconnect ws (s\<lparr>openSockets := removeAll ws (openSockets s)\<rparr>))"
    by (rule sameTimers_trans [OF _ sameTimers_handleDisconnect]) (simp add: sameTimers_def)
  from sameTimers_frame [OF ok [unfolded timersOk_def] this] Close
  show ?thesis by (simp add: step_def timersOk_def)
next
  case (TimerFires h env)
  with fireTimer_timersOk [OF ok] show ?thesis by (simp add: step_def)
qed

lemma run_timersOk: "timersOk s \<Longrightarrow> safeRun s evs \<Longrightarrow> timersOk (run s evs)"
  unfolding run_def
  by (induction evs arbitrary: s) (simp_all add: step_timersOk)

lemma same_key_short:
  "distinct (map f xs) \<Longrightarrow> \<forall>x \<in> set xs. f x = k \<Longrightarrow> length xs \<le> 1"
  by (cases xs; cases "tl xs") auto

lemma timersOk_recorded:
  assumes "timersOk s" and "rooms s c = Some r" and "tm \<in> set (pending s)" and "targetOf tm = c"
  shows "recordedIn r tm \<and> inPhase r tm"
  using assms by (fastforce simp: timersOk_def timersOkBut_def)

lemma timersOk_one_phase_timer:
  assumes ok: "timersOk s" and room: "rooms s c = Some r"
  shows "length (filter (\<lambda>tm. callback tm = AdvancePhaseCb c) (pending s)) \<le> 1"
proof (rule same_key_short [where f = timer_id and k = "the (phaseTimer (timers r))"])
  show "distinct (map timer_id (filter (\<lambda>tm. callback tm = AdvancePhaseCb c) (pending s)))"
    using ok by (simp add: timersOk_def timersOkBut_def distinct_map_filter)
  show "\<forall>x \<in> set (filter (\<lambda>tm. callback tm = AdvancePhaseCb c) (pending s)).
          timer_id x = the (phaseTimer (timers r))"
  proof
    fix x
    assume "x \<in> set (filter (\<lambda>tm. callback tm = AdvancePhaseCb c) (pending s))"
    then have x: "x \<in> set (pending s)" and cb: "callback x = AdvancePhaseCb c" by simp_all
    from cb have "targetOf x = c" by (simp add: targetOf_def)
    from timersOk_recorded [OF ok room x this] cb
    show "timer_id x = the (phaseTimer (timers r))" by (simp add: recordedIn_def)
  qed
qed

lemma startPhase_only_fresh:
  assumes ok: "timersOk s" and room: "rooms s c = Some r"
    and tm: "tm \<in> set (pending (startPhase c ph d t s))" and tg: "targetOf tm = c"
  shows "nextTimer s \<le> timer_id tm"
proof -
  let ?n = "nextTimer s"
  let ?F = "filter (\<lambda>tm. timer_id tm \<notin> roomHandles r) (pending s)"
  let ?AP = "armedPhase c d ?n"
  let ?AE = "armedEvidence c r ph (?n + length ?AP)"
  from tm have "tm \<in> set (?F @ ?AP @ ?AE)" by (simp add: startPhase_eq [OF room])
  then consider (old) "tm \<in> set ?F" | (ap) "tm \<in> set ?AP" | (ae) "tm \<in> set ?AE" by auto
  then show ?thesis
  proof cases
    case old
    then have x: "tm \<in> set (pending s)" and nh: "timer_id tm \<notin> roomHandles r" by simp_all
    from timersOk_recorded [OF ok room x tg] have "recordedIn r tm" by simp
    from recordedIn_handle [OF this] nh show ?thesis by simp
  next
    case ap
    with armedPhase_cases [of c d ?n] show ?thesis by auto
  next
    case ae
    then have "timer_id tm \<in> set (map timer_id ?AE)" by simp
    then show ?thesis unfolding armedEvidence_ids [of c r ph "?n + length ?AP"] by simp
  qed
qed

lemma run_append: "run s (xs @ ys) = run (run s xs) ys"
  by (simp add: run_def)

lemma run_Cons: "run s (ev # evs) = run (step s ev) evs"
  by (simp add: run_def)

lemma run_Nil: "run s [] = s"
  by (simp add: run_def)

lemma createRoom_proj:
  "rooms (createRoom ws cd env s)
     = (rooms s)(generateRoomCode (randomBase36 env) \<mapsto>
          freshRoom (nextRef s) (generateRoomCode (randomBase36 env)) (playerId cd))"
  "clients (createRoom ws cd env s) = clients s"
  "pending (createRoom ws cd env s) = pending s"
  "nextTimer (createRoom ws cd env s) = nextTimer s"
  "nextRef (createRoom ws cd env s) = Suc (nextRef s)"
  by (simp_all add: createRoom_def Let_def freshRoom_def)

lemma joinRoom_proj:
  assumes "rooms s rc = Some room" and "length (players room) < 8"
    and "phase (gameState room) = WAITING"
  shows "rooms (joinRoom ws cd rc nm s)
     = (rooms s)(rc \<mapsto> room\<lparr>players :=
          AList.update (playerId cd)
            \<lparr>player_id = playerId cd, player_name = nm,
             color = COLORS ! (length (players room) mod 8),
             avatar = AVATARS ! (length (players room) mod 8),
             score = 0, isGuilty = False\<rparr> (players room)\<rparr>)"
    "clients (joinRoom ws cd rc nm s)
     = AList.update ws (cd\<lparr>roomCode := Some rc, playerName := Some nm\<rparr>) (clients s)"
    "pending (joinRoom ws cd rc nm s) = pending s"
    "nextTimer (joinRoom ws cd rc nm s) = nextTimer s"
    "nextRef (joinRoom ws cd rc nm s) = nextRef s"
  using assms by (simp_all add: joinRoom_def Let_def)

lemma startGame_proj:
  assumes "rooms s c = Some room" and "4 \<le> length (players room)"
  shows "pending (startGame (Some c) env s)
     = filter (\<lambda>tm. timer_id tm \<notin> roomHandles room) (pending s)
       @ [\<lparr>timer_id = nextTimer s, delay = 5000, callback = AdvancePhaseCb c\<rparr>]"
    "nextTimer (startGame (Some c) env s) = Suc (nextTimer s)"
    "clients (startGame (Some c) env s) = clients s"
    "nextRef (startGame (Some c) env s) = nextRef s"
  by (simp_all add: startGame_Some [OF assms] startPhase_eq armedPhase_def armedEvidence_def
        roomHandles_def)

section \<open>Timers\<close>

text \<open>
  Claim C4, as stated, fails when a room code is handed out again.  The timeouts close
  over the room code, \<open>createRoom\<close> replaces a registered room without looking at it,
  and nothing cancels the timeouts of a room that leaves the registry.  In the lobby of
  four, \<open>START_GAME\<close> arms the phase timeout 0 for AB12; a \<open>CREATE_ROOM\<close> that draws
  AB12 again replaces the room; the four clients join the new room and start it, which
  arms timeout 1 and cancels nothing, the new room having no handle recorded.  Two phase
  timeouts are now pending for AB12, and when timeout 0, armed for the replaced room,
  fires, it moves the new room from \<open>SETUP\<close> to \<open>ALIBI_CONSTRUCTION\<close>.
\<close>

theorem two_phase_timers_after_code_reuse:
  "map timer_id (pending (run (initServer []) codeReuseEvents)) = [0, 1]
   \<and> map callback (pending (run (initServer []) codeReuseEvents))
       = [AdvancePhaseCb ''AB12'', AdvancePhaseCb ''AB12'']
   \<and> map_option (phaseTimer \<circ> timers) (rooms (run (initServer []) codeReuseEvents) ''AB12'')
       = Some (Some 1)
   \<and> map_option (phase \<circ> gameState) (rooms (run (initServer []) codeReuseEvents) ''AB12'')
       = Some SETUP
   \<and> map_option (phase \<circ> gameState)
        (rooms (run (initServer []) (codeReuseEvents @ [TimerFires 0 (env0\<lparr>now := 5000\<rparr>)])) ''AB12'')
       = Some ALIBI_CONSTRUCTION"
proof -
  define s9 where "s9 = run (initServer []) lobbyEvents"
  define s10 where "s10 = startGame (Some ''AB12'') env0 s9"
  define s11 where "s11 = createRoom 1 \<lparr>playerId = ''p1'', roomCode = Some ''AB12'', playerName = Some ''Ann''\<rparr> env0 s10"
  define s12 where "s12 = joinRoom 1 \<lparr>playerId = ''p1'', roomCode = Some ''AB12'', playerName = Some ''Ann''\<rparr> ''AB12'' ''Ann'' s11"
  define s13 where "s13 = joinRoom 2 \<lparr>playerId = ''p2'', roomCode = Some ''AB12'', playerName = Some ''Bob''\<rparr> ''AB12'' ''Bob'' s12"
  define s14 where "s14 = joinRoom 3 \<lparr>playerId = ''p3'', roomCode = Some ''AB12'', playerName = Some ''Cid''\<rparr> ''AB12'' ''Cid'' s13"
  define s15 where "s15 = joinRoom 4 \<lparr>playerId = ''p4'', roomCode = Some ''AB12'', playerName = Some ''Dee''\<rparr> ''AB12'' ''Dee'' s14"
  define s16 where "s16 = startGame (Some ''AB12'') (env0\<lparr>now := 3000\<rparr>) s15"
  define s17 where "s17 = fireTimer 0 (env0\<lparr>now := 5000\<rparr>) s16"
  have code: "generateRoomCode (randomBase36 env0) = ''AB12''"
    by code_simp
  have p9: "rooms s9 ''AB12'' = Some lobbyRoom" "clients s9 = lobbyClients" "pending s9 = []"
    "nextTimer s9 = 0" "nextRef s9 = 1"
    using lobby_reached by (simp_all add: s9_def)
  have four9: "4 \<le> length (players lobbyRoom)"
    by (simp add: lobbyRoom_def lobbyPlayers_def)
  have p10: "clients s10 = lobbyClients" "nextTimer s10 = 1" "nextRef s10 = 1"
    "pending s10 = [\<lparr>timer_id = 0, delay = 5000, callback = AdvancePhaseCb ''AB12''\<rparr>]"
    unfolding s10_def by (simp_all add: startGame_proj [OF p9(1) four9] p9)
  have p11: "clients s11 = lobbyClients" "nextTimer s11 = 1"
    "pending s11 = [\<lparr>timer_id = 0, delay = 5000, callback = AdvancePhaseCb ''AB12''\<rparr>]"
    "rooms s11 ''AB12'' = Some (freshRoom (Suc 0) ''AB12'' ''p1'')"
    unfolding s11_def by (simp_all add: createRoom_proj code p10)
  have w: "phase (gameState (freshRoom (Suc 0) ''AB12'' ''p1'')) = WAITING"
    "players (freshRoom (Suc 0) ''AB12'' ''p1'') = []"
    by (simp_all add: freshRoom_def newGameState_def)
  let ?r12 = "(freshRoom (Suc 0) ''AB12'' ''p1'')\<lparr>players := take 1 lobbyPlayers\<rparr>"
  have p12: "clients s12 = lobbyClients" "nextTimer s12 = 1"
    "pending s12 = [\<lparr>timer_id = 0, delay = 5000, callback = AdvancePhaseCb ''AB12''\<rparr>]"
    "rooms s12 ''AB12'' = Some ?r12"
    unfolding s12_def
    by (simp_all add: joinRoom_proj [OF p11(4)] w p11 lobbyClients_def lobbyPlayers_def
          COLORS_def AVATARS_def)
  have w12: "phase (gameState ?r12) = WAITING" "length (players ?r12) < 8"
    by (simp_all add: freshRoom_def newGameState_def lobbyPlayers_def)
  let ?r13 = "(freshRoom (Suc 0) ''AB12'' ''p1'')\<lparr>players := take 2 lobbyPlayers\<rparr>"
  have p13: "clients s13 = lobbyClients" "nextTimer s13 = 1"
    "pending s13 = [\<lparr>timer_id = 0, delay = 5000, callback = AdvancePhaseCb ''AB12''\<rparr>]"
    "rooms s13 ''AB12'' = Some ?r13"
    unfolding s13_def
    by (simp_all add: joinRoom_proj [OF p12(4) w12(2) w12(1)] p12 lobbyClients_def
          lobbyPlayers_def COLORS_def AVATARS_def)
  have w13: "phase (gameState ?r13) = WAITING" "length (players ?r13) < 8"
    by (simp_all add: freshRoom_def newGameState_def lobbyPlayers_def)
  let ?r14 = "(freshRoom (Suc 0) ''AB12'' ''p1'')\<lparr>players := take 3 lobbyPlayers\<rparr>"
  have p14: "clients s14 = lobbyClients" "nextTimer s14 = 1"
    "pending s14 = [\<lparr>timer_id = 0, delay = 5000, callback = AdvancePhaseCb ''AB12''\<rparr>]"
    "rooms s14 ''AB12'' = Some ?r14"
    unfolding s14_def
    by (simp_all add: joinRoom_proj [OF p13(4) w13(2) w13(1)] p13 lobbyClients_def
          lobbyPlayers_def COLORS_def AVATARS_def)
  have w14: "phase (gameState ?r14) = WAITING" "length (players ?r14) < 8"
    by (simp_all add: freshRoom_def newGameState_def lobbyPlayers_def)
  let ?r15 = "(freshRoom (Suc 0) ''AB12'' ''p1'')\<lparr>players := lobbyPlayers\<rparr>"
  have p15: "clients s15 = lobbyClients" "nextTimer s15 = 1"
    "pending s15 = [\<lparr>timer_id = 0, delay = 5000, callback = AdvancePhaseCb ''AB12''\<rparr>]"
    "rooms s15 ''AB12'' = Some ?r15"
    unfolding s15_def
    by (simp_all add: joinRoom_proj [OF p14(4) w14(2) w14(1)] p14 lobbyClients_def
          lobbyPlayers_def COLORS_def AVATARS_def)
  have four15: "4 \<le> length (players ?r15)"
    by (simp add: lobbyPlayers_def)
  have h15: "roomHandles ?r15 = {}"
    by (simp add: roomHandles_def freshRoom_def)
  have p16: "pending s16 = [\<lparr>timer_id = 0, delay = 5000, callback = AdvancePhaseCb ''AB12''\<rparr>,
                             \<lparr>timer_id = 1, delay = 5000, callback = AdvancePhaseCb ''AB12''\<rparr>]"
    unfolding s16_def by (simp add: startGame_proj [OF p15(4) four15] p15 h15)
  have r16: "rooms s16 ''AB12''
      = Some (startedRoom ''AB12''
                (?r15\<lparr>gameState := roundReset ?r15 (env0\<lparr>now := 3000\<rparr>)\<rparr>)
                SETUP (Some 5000) 3000 1)"
    unfolding s16_def by (simp add: startGame_room [OF p15(4) four15] p15)
  have t16: "map_option (phaseTimer \<circ> timers) (rooms s16 ''AB12'') = Some (Some 1)"
    "map_option (phase \<circ> gameState) (rooms s16 ''AB12'') = Some SETUP"
    by (simp_all add: r16 startedRoom_def armedPhase_def)
  have f17: "s17 = advancePhase ''AB12'' 5000 (clearTimeout 0 s16)"
    unfolding s17_def by (simp add: fireTimer_def p16 Let_def)
  have r16': "rooms (clearTimeout 0 s16) ''AB12''
      = Some (startedRoom ''AB12''
                (?r15\<lparr>gameState := roundReset ?r15 (env0\<lparr>now := 3000\<rparr>)\<rparr>)
                SETUP (Some 5000) 3000 1)"
    by (simp add: clearTimeout_def r16)
  from advancePhase_next [OF r16', of 5000]
  have t17: "map_option (phase \<circ> gameState) (rooms s17 ''AB12'') = Some ALIBI_CONSTRUCTION"
    unfolding f17 by (auto simp: startedRoom_def nextInOrder_def)
  have m: "map_of lobbyClients (Suc 0) = Some \<lparr>playerId = ''p1'', roomCode = Some ''AB12'', playerName = Some ''Ann''\<rparr>"
    "map_of lobbyClients 2 = Some \<lparr>playerId = ''p2'', roomCode = Some ''AB12'', playerName = Some ''Bob''\<rparr>"
    "map_of lobbyClients 3 = Some \<lparr>playerId = ''p3'', roomCode = Some ''AB12'', playerName = Some ''Cid''\<rparr>"
    "map_of lobbyClients 4 = Some \<lparr>playerId = ''p4'', roomCode = Some ''AB12'', playerName = Some ''Dee''\<rparr>"
    by (simp_all add: lobbyClients_def)
  have e10: "step s9 (Message 1 START_GAME env0) = s10"
    by (simp add: step_def handleMessage_def p9 m s10_def)
  have e11: "step s10 (Message 1 CREATE_ROOM env0) = s11"
    by (simp add: step_def handleMessage_def p10 m s11_def)
  have e12: "step s11 (Message 1 (JOIN_ROOM ''AB12'' ''Ann'') env0) = s12"
    by (simp add: step_def handleMessage_def p11 m s12_def)
  have e13: "step s12 (Message 2 (JOIN_ROOM ''AB12'' ''Bob'') env0) = s13"
    by (simp add: step_def handleMessage_def p12 m s13_def)
  have e14: "step s13 (Message 3 (JOIN_ROOM ''AB12'' ''Cid'') env0) = s14"
    by (simp add: step_def handleMessage_def p13 m s14_def)
  have e15: "step s14 (Message 4 (JOIN_ROOM ''AB12'' ''Dee'') env0) = s15"
    by (simp add: step_def handleMessage_def p14 m s15_def)
  have e16: "step s15 (Message 2 START_GAME (env0\<lparr>now := 3000\<rparr>)) = s16"
    by (simp add: step_def handleMessage_def p15 m s16_def)
  have e17: "step s16 (TimerFires 0 (env0\<lparr>now := 5000\<rparr>)) = s17"
    by (simp add: step_def s17_def)
  have run16: "run (initServer []) codeReuseEvents = s16"
    unfolding codeReuseEvents_def run_append s9_def [symmetric]
    by (simp only: run_Cons run_Nil e10 e11 e12 e13 e14 e15 e16)
  have run17: "run (initServer []) (codeReuseEvents @ [TimerFires 0 (env0\<lparr>now := 5000\<rparr>)]) = s17"
    unfolding run_append run16 by (simp only: run_Cons run_Nil e17)
  show ?thesis
    unfolding run16 run17 using p16 t16 t17 by simp
qed

text \<open>
  Claim C4, amended.  Take any run of the server from its initial state in which
  \<open>createRoom\<close> never produces a code that a pending timeout still targets
  (\<open>safeRun\<close>).  In every state of such a run (\<open>timersOk\<close>) the pending timeouts
  have distinct handles, and a pending timeout that targets a registered room is one
  whose handle the room records: the room's \<open>phaseTimer\<close> for an
  \<open>advancePhase\<close> timeout, an element of its \<open>evidenceTimers\<close> for an evidence
  timeout, which moreover captured that very room object and is pending only in phase
  \<open>INTERROGATION\<close>; no timeout targets a room in phase \<open>WAITING\<close>.  Hence at most one
  phase timeout is pending per room.  \<open>startPhase\<close> removes every pending timeout the
  room records before it arms new ones, so the timeouts that target the room afterwards
  all carry handles issued by that call.
\<close>

theorem timers_replaced_by_startPhase:
  assumes "safeRun (initServer lb) evs"
  shows "timersOk (run (initServer lb) evs)
     \<and> (\<forall>c r. rooms (run (initServer lb) evs) c = Some r \<longrightarrow>
           length (filter (\<lambda>tm. callback tm = AdvancePhaseCb c) (pending (run (initServer lb) evs)))
             \<le> 1
           \<and> (\<forall>tm \<in> set (pending (run (initServer lb) evs)).
                 targetOf tm = c \<longrightarrow> recordedIn r tm \<and> inPhase r tm)
           \<and> (\<forall>ph d t. \<forall>tm \<in> set (pending (startPhase c ph d t (run (initServer lb) evs))).
                 targetOf tm = c \<longrightarrow> nextTimer (run (initServer lb) evs) \<le> timer_id tm))"
proof -
  have ok: "timersOk (run (initServer lb) evs)"
    by (rule run_timersOk [OF timersOk_init assms])
  show ?thesis
  proof (intro conjI allI impI ballI)
    show "timersOk (run (initServer lb) evs)" by (rule ok)
  next
    fix c r
    assume r: "rooms (run (initServer lb) evs) c = Some r"
    show "length (filter (\<lambda>tm. callback tm = AdvancePhaseCb c) (pending (run (initServer lb) evs)))
             \<le> 1"
      by (rule timersOk_one_phase_timer [OF ok r])
  next
    fix c r tm
    assume r: "rooms (run (initServer lb) evs) c = Some r"
      and tm: "tm \<in> set (pending (run (initServer lb) evs))" and tg: "targetOf tm = c"
    from timersOk_recorded [OF ok r tm tg]
    show "recordedIn r tm" and "inPhase r tm" by simp_all
  next
    fix c r ph d t tm
    assume r: "rooms (run (initServer lb) evs) c = Some r"
      and tm: "tm \<in> set (pending (startPhase c ph d t (run (initServer lb) evs)))"
      and tg: "targetOf tm = c"
    show "nextTimer (run (initServer lb) evs) \<le> timer_id tm"
      by (rule startPhase_only_fresh [OF ok r tm tg])
  qed
qed

theorem timers_replaced_by_startPhase_witness:
  "safeRun (initServer []) (lobbyEvents @ [Message 1 START_GAME env0])
   \<and> map callback (pending startedServer) = [AdvancePhaseCb ''AB12'']
   \<and> (case rooms startedServer ''AB12'' of
         None \<Rightarrow> False
       | Some r \<Rightarrow>
           phaseTimer (timers r) = Some 0
           \<and> length (filter (\<lambda>tm. callback tm = AdvancePhaseCb ''AB12'') (pending startedServer)) \<le> 1
           \<and> (\<forall>tm \<in> set (pending startedServer).
                 targetOf tm = ''AB12'' \<longrightarrow> recordedIn r tm \<and> inPhase r tm)
           \<and> (\<forall>tm \<in> set (pending (startPhase ''AB12'' ALIBI_CONSTRUCTION (Some 30000) 6000
                                      startedServer)).
                 targetOf tm = ''AB12'' \<longrightarrow> nextTimer startedServer \<le> timer_id tm))"
proof -
  have ev: "safeRun (initServer []) (lobbyEvents @ [Message 1 START_GAME env0])
     \<and> map callback (pending startedServer) = [AdvancePhaseCb ''AB12'']
     \<and> (case rooms startedServer ''AB12'' of None \<Rightarrow> False
         | Some r \<Rightarrow> phaseTimer (timers r) = Some 0)"
    by code_simp
  then obtain r where r: "rooms startedServer ''AB12'' = Some r"
    by (cases "rooms startedServer ''AB12''") auto
  from ev have safe: "safeRun (initServer []) (lobbyEvents @ [Message 1 START_GAME env0])"
    by simp
  note inv = timers_replaced_by_startPhase [OF safe, folded startedServer_def]
  from inv r have
    "length (filter (\<lambda>tm. callback tm = AdvancePhaseCb ''AB12'') (pending startedServer)) \<le> 1
     \<and> (\<forall>tm \<in> set (pending startedServer).
           targetOf tm = ''AB12'' \<longrightarrow> recordedIn r tm \<and> inPhase r tm)
     \<and> (\<forall>tm \<in> set (pending (startPhase ''AB12'' ALIBI_CONSTRUCTION (Some 30000) 6000
                                startedServer)).
           targetOf tm = ''AB12'' \<longrightarrow> nextTimer startedServer \<le> timer_id tm)"
    by blast
  with ev r show ?thesis by simp
qed

section \<open>A round in progress\<close>

lemma startPhase_proj:
  assumes "rooms s c = Some room"
  shows "rooms (startPhase c ph d t s) = (rooms s)(c \<mapsto> startedRoom c room ph d t (nextTimer s))"
    "pending (startPhase c ph d t s)
       = filter (\<lambda>tm. timer_id tm \<notin> roomHandles room) (pending s)
         @ armedPhase c d (nextTimer s)
         @ armedEvidence c room ph (nextTimer s + length (armedPhase c d (nextTimer s)))"
    "nextTimer (startPhase c ph d t s)
       = nextTimer s + length (armedPhase c d (nextTimer s))
         + length (armedEvidence c room ph (nextTimer s + length (armedPhase c d (nextTimer s))))"
    "clients (startPhase c ph d t s) = clients s"
    "openSockets (startPhase c ph d t s) = openSockets s"
    "nextRef (startPhase c ph d t s) = nextRef s"
  by (simp_all add: startPhase_eq [OF assms])

lemma askQuestion_proj:
  assumes "roomCode cd = Some c" and "rooms s c = Some room"
    and "phase (gameState room) = INTERROGATION"
    and "length (filter (\<lambda>q. q_from q = playerId cd) (questions (gameState room))) < 3"
  shows "rooms (askQuestion cd toId txt env s)
       = (rooms s)(c \<mapsto> room\<lparr>gameState := (gameState room)\<lparr>questions :=
            questions (gameState room) @
              [\<lparr>question_id = freshQuestionId env, q_from = playerId cd, q_to = toId,
                question = txt, answer = None, timestamp = now env\<rparr>]\<rparr>\<rparr>)"
    "pending (askQuestion cd toId txt env s) = pending s"
    "nextTimer (askQuestion cd toId txt env s) = nextTimer s"
    "clients (askQuestion cd toId txt env s) = clients s"
    "openSockets (askQuestion cd toId txt env s) = openSockets s"
    "nextRef (askQuestion cd toId txt env s) = nextRef s"
  using assms by (simp_all add: askQuestion_def Let_def modifyGameState_Some)

lemma interrogation_reached:
  "rooms (run (initServer []) interrogationEvents) ''AB12'' = Some interrogationRoom
   \<and> clients (run (initServer []) interrogationEvents) = lobbyClients
   \<and> pending (run (initServer []) interrogationEvents) = interrogationTimers
   \<and> nextTimer (run (initServer []) interrogationEvents) = 5
   \<and> nextRef (run (initServer []) interrogationEvents) = 1
   \<and> openSockets (run (initServer []) interrogationEvents) = [4, 3, 2, 1]"
proof -
  define s9 where "s9 = run (initServer []) lobbyEvents"
  define s10 where "s10 = startGame (Some ''AB12'') env0 s9"
  define s11 where "s11 = fireTimer 0 (env0\<lparr>now := 6000\<rparr>) s10"
  define s12 where "s12 = fireTimer (Suc 0) (env0\<lparr>now := 36000\<rparr>) s11"
  define s13 where "s13 = askQuestion \<lparr>playerId = ''p1'', roomCode = Some ''AB12'', playerName = Some ''Ann''\<rparr>
        ''p2'' ''Where were you at 9:47 PM?'' (env0\<lparr>now := 37000\<rparr>) s12"
  define r10 where "r10 = startedRoom ''AB12'' (lobbyRoom\<lparr>gameState := roundReset lobbyRoom env0\<rparr>)
        SETUP (Some 5000) 1000 0"
  define r11 where "r11 = startedRoom ''AB12'' r10 ALIBI_CONSTRUCTION (Some 30000) 6000 (Suc 0)"
  define r12 where "r12 = startedRoom ''AB12'' r11 INTERROGATION (Some 30000) 36000 2"
  have p9: "rooms s9 ''AB12'' = Some lobbyRoom" "clients s9 = lobbyClients" "pending s9 = []"
    "nextTimer s9 = 0" "nextRef s9 = 1" "openSockets s9 = [4, 3, 2, 1]"
    using lobby_reached by (simp_all add: s9_def)
  have four9: "4 \<le> length (players lobbyRoom)"
    by (simp add: lobbyRoom_def lobbyPlayers_def)
  have now0: "now env0 = 1000" by (simp add: env0_def)
  have s10eq: "s10 = startPhase ''AB12'' SETUP (Some 5000) 1000
                 (s9\<lparr>rooms := (rooms s9)(''AB12'' \<mapsto> lobbyRoom\<lparr>gameState := roundReset lobbyRoom env0\<rparr>)\<rparr>)"
    unfolding s10_def by (simp add: startGame_Some [OF p9(1) four9] now0)
  have h9: "roomHandles (lobbyRoom\<lparr>gameState := roundReset lobbyRoom env0\<rparr>) = {}"
    by (simp add: roomHandles_def lobbyRoom_def)
  have p10: "rooms s10 ''AB12'' = Some r10" "clients s10 = lobbyClients"
    "pending s10 = [\<lparr>timer_id = 0, delay = 5000, callback = AdvancePhaseCb ''AB12''\<rparr>]"
    "nextTimer s10 = Suc 0" "nextRef s10 = 1" "openSockets s10 = [4, 3, 2, 1]"
    unfolding s10eq r10_def
    by (simp_all add: startPhase_proj [where room = "lobbyRoom\<lparr>gameState := roundReset lobbyRoom env0\<rparr>"]
          p9 h9 armedPhase_def armedEvidence_def)
  have ph10: "phase (gameState r10) = SETUP" and h10: "roomHandles r10 = {0}"
    by (simp_all add: r10_def startedRoom_def roomHandles_def armedPhase_def armedEvidence_def
          lobbyRoom_def)
  have s11eq: "s11 = startPhase ''AB12'' ALIBI_CONSTRUCTION (Some 30000) 6000 (clearTimeout 0 s10)"
    unfolding s11_def
    by (simp add: fireTimer_def p10 Let_def
          advancePhase_cases [where room = r10] clearTimeout_def ph10 PHASE_DURATIONS_def)
  have p11: "rooms s11 ''AB12'' = Some r11" "clients s11 = lobbyClients"
    "pending s11 = [\<lparr>timer_id = Suc 0, delay = 30000, callback = AdvancePhaseCb ''AB12''\<rparr>]"
    "nextTimer s11 = 2" "nextRef s11 = 1" "openSockets s11 = [4, 3, 2, 1]"
    unfolding s11eq r11_def
    by (simp_all add: startPhase_proj [where room = r10] clearTimeout_def p10 h10
          armedPhase_def armedEvidence_def)
  have ph11: "phase (gameState r11) = ALIBI_CONSTRUCTION" and h11: "roomHandles r11 = {Suc 0}"
    by (simp_all add: r11_def startedRoom_def roomHandles_def armedPhase_def armedEvidence_def)
  have s12eq: "s12 = startPhase ''AB12'' INTERROGATION (Some 30000) 36000 (clearTimeout (Suc 0) s11)"
    unfolding s12_def
    by (simp add: fireTimer_def p11 Let_def
          advancePhase_cases [where room = r11] clearTimeout_def ph11 PHASE_DURATIONS_def)
  have cr11: "crime (gameState r11) = Some museum_heist" and ref11: "room_ref r11 = 0"
    by (simp_all add: r11_def r10_def startedRoom_def roundReset_def env0_def at_index_def
          getCrimes_def lobbyRoom_def lobbyPlayers_def)
  have p12: "rooms s12 ''AB12'' = Some r12" "clients s12 = lobbyClients"
    "pending s12 = interrogationTimers"
    "nextTimer s12 = 5" "nextRef s12 = 1" "openSockets s12 = [4, 3, 2, 1]"
    unfolding s12eq r12_def
    by (simp_all add: startPhase_proj [where room = r11] clearTimeout_def p11 h11
          armedPhase_def armedEvidence_def cr11 ref11 museum_heist_def mkEvidence_def
          interrogationTimers_def)
  have ph12: "phase (gameState r12) = INTERROGATION" "questions (gameState r12) = []"
    by (simp_all add: r12_def r11_def r10_def startedRoom_def roundReset_def)
  have r13: "r12\<lparr>gameState := (gameState r12)\<lparr>questions :=
              [\<lparr>question_id = freshQuestionId env0, q_from = ''p1'', q_to = ''p2'',
                question = ''Where were you at 9:47 PM?'', answer = None,
                timestamp = 37000\<rparr>]\<rparr>\<rparr> = interrogationRoom"
    by (simp add: r12_def r11_def r10_def startedRoom_def roundReset_def env0_def at_index_def
          getCrimes_def lobbyRoom_def lobbyPlayers_def newGameState_def interrogationRoom_def armedPhase_def
          armedEvidence_def museum_heist_def mkEvidence_def)
  have p13: "rooms s13 ''AB12'' = Some interrogationRoom" "clients s13 = lobbyClients"
    "pending s13 = interrogationTimers"
    "nextTimer s13 = 5" "nextRef s13 = 1" "openSockets s13 = [4, 3, 2, 1]"
    unfolding s13_def
    by (simp_all add: askQuestion_proj [where c = "''AB12''" and room = r12] p12 ph12 r13)
  have m: "map_of lobbyClients (Suc 0) = Some \<lparr>playerId = ''p1'', roomCode = Some ''AB12'', playerName = Some ''Ann''\<rparr>"
    by (simp add: lobbyClients_def)
  have e10: "step s9 (Message 1 START_GAME env0) = s10"
    by (simp add: step_def handleMessage_def p9 m s10_def)
  have e11: "step s10 (TimerFires 0 (env0\<lparr>now := 6000\<rparr>)) = s11"
    by (simp add: step_def s11_def)
  have e12: "step s11 (TimerFires 1 (env0\<lparr>now := 36000\<rparr>)) = s12"
    by (simp add: step_def s12_def)
  have e13: "step s12 (Message 1 (ASK_QUESTION ''p2'' ''Where were you at 9:47 PM?'') (env0\<lparr>now := 37000\<rparr>)) = s13"
    by (simp add: step_def handleMessage_def p12 m s13_def)
  have "run (initServer []) interrogationEvents = s13"
    unfolding interrogationEvents_def run_append s9_def [symmetric]
    by (simp only: run_Cons run_Nil e10 e11 e12 e13)
  with p13 show ?thesis by simp
qed

text \<open>
  Claim C1.  The guard of \<open>AlibiServer.startGame\<close> tests that the room exists and has at
  least four players; it does not test the phase (\<open>startGame_effect\<close> holds in every
  phase), whereas \<open>GameManager.canStartGame\<close> also requires \<open>WAITING\<close> and is false
  here.  After
  \<open>interrogationEvents\<close> room AB12 is in \<open>INTERROGATION\<close> in round 1 with four players and
  one question asked.  A \<open>START_GAME\<close> from the third client then starts round 2: the phase
  becomes \<open>SETUP\<close>, the questions are dropped and four \<open>PHASE_CHANGE\<close> messages are sent.
\<close>

theorem startGame_restarts_running_round:
  "map_option (phase \<circ> gameState)
      (rooms (run (initServer []) interrogationEvents) ''AB12'') = Some INTERROGATION
   \<and> map_option (roundNumber \<circ> gameState)
      (rooms (run (initServer []) interrogationEvents) ''AB12'') = Some 1
   \<and> map_option (length \<circ> questions \<circ> gameState)
      (rooms (run (initServer []) interrogationEvents) ''AB12'') = Some 1
   \<and> map_option (length \<circ> players)
      (rooms (run (initServer []) interrogationEvents) ''AB12'') = Some 4
   \<and> map_option (phase \<circ> gameState)
      (rooms (run (initServer [])
                (interrogationEvents @ [Message 3 START_GAME (env0\<lparr>now := 40000\<rparr>)])) ''AB12'')
     = Some SETUP
   \<and> map_option (roundNumber \<circ> gameState)
      (rooms (run (initServer [])
                (interrogationEvents @ [Message 3 START_GAME (env0\<lparr>now := 40000\<rparr>)])) ''AB12'')
     = Some 2
   \<and> map_option (questions \<circ> gameState)
      (rooms (run (initServer [])
                (interrogationEvents @ [Message 3 START_GAME (env0\<lparr>now := 40000\<rparr>)])) ''AB12'')
     = Some []
   \<and> length (emitted (run (initServer []) interrogationEvents)
        (run (initServer [])
           (interrogationEvents @ [Message 3 START_GAME (env0\<lparr>now := 40000\<rparr>)]))) = 4
   \<and> \<not> canStartGame 4 INTERROGATION"
proof -
  define s where "s = run (initServer []) interrogationEvents"
  let ?env = "env0\<lparr>now := 40000\<rparr>"
  have room: "rooms s ''AB12'' = Some interrogationRoom"
    and cl: "clients s = lobbyClients" and os: "openSockets s = [4, 3, 2, 1]"
    using interrogation_reached by (simp_all add: s_def)
  have four: "4 \<le> length (players interrogationRoom)"
    by (simp add: interrogationRoom_def lobbyPlayers_def)
  have after: "run (initServer []) (interrogationEvents @ [Message 3 START_GAME ?env])
               = startGame (Some ''AB12'') ?env s"
    unfolding run_append s_def [symmetric]
    by (simp add: run_Cons run_Nil step_def handleMessage_def cl lobbyClients_def)
  from startGame_effect [OF room four, of ?env] obtain room' where
    r': "rooms (startGame (Some ''AB12'') ?env s) ''AB12'' = Some room'"
    and eff: "phase (gameState room') = SETUP"
      "roundNumber (gameState room') = Suc (roundNumber (gameState interrogationRoom))"
      "questions (gameState room') = []"
    by blast
  have before: "phase (gameState interrogationRoom) = INTERROGATION"
    "roundNumber (gameState interrogationRoom) = 1"
    "length (questions (gameState interrogationRoom)) = 1"
    "length (players interrogationRoom) = 4"
    by (simp_all add: interrogationRoom_def lobbyPlayers_def)
  have sent: "length (emitted s (startGame (Some ''AB12'') ?env s)) = 4"
    unfolding emitted_def startGame_outbox [OF room four]
    by (simp add: phaseBroadcast_def delivery_def findClient_def cl os
          interrogationRoom_def lobbyPlayers_def lobbyClients_def)
  show ?thesis
    unfolding after s_def [symmetric] using room r' eff before sent
    by (simp add: canStartGame_def)
qed

text \<open>
  Claim C9.  \<open>answerQuestion\<close> decides whether a question already has an answer by the
  truthiness of \<open>question.answer\<close>, which is false for the empty string.  After a first
  non-empty answer every further call for that id is ignored
  (\<open>answerQuestion_second_call_ignored\<close>).  After a first answer \<open>""\<close> it is not: after
  \<open>interrogationEvents\<close> the second client, to whom the question is addressed, answers
  \<open>""\<close> and then \<open>"x"\<close>; the stored answer ends as \<open>"x"\<close>, and the second call sends
  \<open>QUESTION_ANSWERED\<close> again to all four players.
\<close>

theorem answerQuestion_overwrites_empty_answer:
  "map_option (map answer \<circ> questions \<circ> gameState)
      (rooms (run (initServer []) interrogationEvents) ''AB12'')
     = Some [None]
   \<and> map_option (map answer \<circ> questions \<circ> gameState)
      (rooms (run (initServer [])
         (interrogationEvents @
            [Message 2 (ANSWER_QUESTION ''q_1000_0.25'' '''') (env0\<lparr>now := 38000\<rparr>)])) ''AB12'')
     = Some [Some '''']
   \<and> map_option (map answer \<circ> questions \<circ> gameState)
      (rooms (run (initServer [])
         (interrogationEvents @
            [Message 2 (ANSWER_QUESTION ''q_1000_0.25'' '''') (env0\<lparr>now := 38000\<rparr>),
             Message 2 (ANSWER_QUESTION ''q_1000_0.25'' ''x'') (env0\<lparr>now := 39000\<rparr>)])) ''AB12'')
     = Some [Some ''x'']
   \<and> length (emitted
        (run (initServer [])
           (interrogationEvents @
              [Message 2 (ANSWER_QUESTION ''q_1000_0.25'' '''') (env0\<lparr>now := 38000\<rparr>)]))
        (run (initServer [])
           (interrogationEvents @
              [Message 2 (ANSWER_QUESTION ''q_1000_0.25'' '''') (env0\<lparr>now := 38000\<rparr>),
               Message 2 (ANSWER_QUESTION ''q_1000_0.25'' ''x'') (env0\<lparr>now := 39000\<rparr>)])))
     = 4"
proof -
  define s where "s = run (initServer []) interrogationEvents"
  let ?cd = "\<lparr>playerId = ''p2'', roomCode = Some ''AB12'', playerName = Some ''Bob''\<rparr>"
  let ?q = "\<lparr>question_id = ''q_1000_0.25'', q_from = ''p1'', q_to = ''p2'',
             question = ''Where were you at 9:47 PM?'', answer = None, timestamp = 37000\<rparr>"
  let ?s1 = "answerQuestion ?cd ''q_1000_0.25'' '''' s"
  let ?s2 = "answerQuestion ?cd ''q_1000_0.25'' ''x'' ?s1"
  let ?room1 = "interrogationRoom\<lparr>gameState :=
       (gameState interrogationRoom)\<lparr>questions := [?q\<lparr>answer := Some ''''\<rparr>]\<rparr>\<rparr>"
  let ?room2 = "?room1\<lparr>gameState :=
       (gameState ?room1)\<lparr>questions := [?q\<lparr>answer := Some ''x''\<rparr>]\<rparr>\<rparr>"
  have room: "rooms s ''AB12'' = Some interrogationRoom"
    and cs: "clients s = lobbyClients" and os: "openSockets s = [4, 3, 2, 1]"
    using interrogation_reached by (simp_all add: s_def)
  have cl: "map_of (clients s) 2 = Some ?cd"
    by (simp add: cs lobbyClients_def)
  have qs: "questions (gameState interrogationRoom) = [?q]"
    by (simp add: interrogationRoom_def)
  have e1: "?s1 = broadcastToRoom ''AB12'' (QUESTION_ANSWERED ''q_1000_0.25'' '''')
       (s\<lparr>rooms := (rooms s)(''AB12'' \<mapsto> ?room1)\<rparr>)"
    by (subst answerQuestion_accepted [where c = "''AB12''" and room = interrogationRoom and q = ?q])
       (simp_all add: room qs hasAnswer_def)
  have h1: "handleMessage 2 (ANSWER_QUESTION ''q_1000_0.25'' '''') (env0\<lparr>now := 38000\<rparr>) s = ?s1"
    using cl by (simp add: handleMessage_def)
  have r1: "rooms ?s1 ''AB12'' = Some ?room1" by (simp add: e1)
  have c1: "map_of (clients ?s1) 2 = Some ?cd" using cl by (simp add: e1)
  have e2: "?s2 = broadcastToRoom ''AB12'' (QUESTION_ANSWERED ''q_1000_0.25'' ''x'')
       (?s1\<lparr>rooms := (rooms ?s1)(''AB12'' \<mapsto> ?room2)\<rparr>)"
    by (subst answerQuestion_accepted [where c = "''AB12''" and room = ?room1
          and q = "?q\<lparr>answer := Some ''''\<rparr>"])
       (simp_all add: r1 hasAnswer_def)
  have h2: "handleMessage 2 (ANSWER_QUESTION ''q_1000_0.25'' ''x'') (env0\<lparr>now := 39000\<rparr>) ?s1 = ?s2"
    using c1 by (simp add: handleMessage_def)
  have r2: "rooms ?s2 ''AB12'' = Some ?room2" by (subst e2) simp
  have cs1: "clients ?s1 = lobbyClients" and os1: "openSockets ?s1 = [4, 3, 2, 1]"
    unfolding e1 by (simp_all add: cs os)
  have dl: "\<And>pid m. delivery pid m ?s1 =
      (case List.find (\<lambda>wd. playerId (snd wd) = pid) lobbyClients of
         None \<Rightarrow> []
       | Some wd \<Rightarrow> if fst wd \<in> set [4, 3, 2, 1] then [(fst wd, m)] else [])"
    by (simp add: delivery_def findClient_def cs1 os1 cong: option.case_cong)
  have ob2: "outbox ?s2 = outbox ?s1 @
      concat (map (\<lambda>pp. delivery (fst pp) (QUESTION_ANSWERED ''q_1000_0.25'' ''x'') ?s1)
                lobbyPlayers)"
    by (subst e2) (simp add: broadcastToRoom_eq interrogationRoom_def)
  have sent: "length (emitted ?s1 ?s2) = 4"
    unfolding emitted_def ob2 dl by (simp add: lobbyPlayers_def lobbyClients_def)
  have run1: "run (initServer [])
         (interrogationEvents @
            [Message 2 (ANSWER_QUESTION ''q_1000_0.25'' '''') (env0\<lparr>now := 38000\<rparr>)]) = ?s1"
    unfolding run_append s_def [symmetric]
    by (simp only: run_Cons run_Nil step_def Event.case h1)
  have run2: "run (initServer [])
         (interrogationEvents @
            [Message 2 (ANSWER_QUESTION ''q_1000_0.25'' '''') (env0\<lparr>now := 38000\<rparr>),
             Message 2 (ANSWER_QUESTION ''q_1000_0.25'' ''x'') (env0\<lparr>now := 39000\<rparr>)]) = ?s2"
    unfolding run_append s_def [symmetric]
    by (simp only: run_Cons run_Nil step_def Event.case h1 h2)
  show ?thesis
    unfolding run1 run2 s_def [symmetric] using room qs r1 r2 sent by simp
qed

section \<open>Scoring and rounds\<close>

text \<open>The scoring body runs in a step exactly when \<open>scoringStep\<close> names a room.\<close>

lemma modifyRoom_scoringRuns [simp]: "scoringRuns (modifyRoom c f s) = scoringRuns s"
  by (simp add: modifyRoom_def split: option.splits)

lemma modifyGameState_scoringRuns [simp]: "scoringRuns (modifyGameState c f s) = scoringRuns s"
  by (simp add: modifyGameState_def)







text \<open>Such a step takes the room from \<open>ACCUSATIONS\<close> to \<open>RESULTS\<close> and stores the scores of
  \<open>scoreRoom\<close>; no other step brings a room into \<open>RESULTS\<close>.\<close>

lemma scoringStep_enters_RESULTS:
  assumes "scoringStep s ev = Some c"
  shows "\<exists>r r'. rooms s c = Some r \<and> phase (gameState r) = ACCUSATIONS
           \<and> rooms (step s ev) c = Some r' \<and> phase (gameState r') = RESULTS
           \<and> roundNumber (gameState r') = roundNumber (gameState r)
           \<and> players r' = acc_players (scoreRoom r)
           \<and> results (gameState r') = Some
                \<lparr>res_guiltyPlayerId = guiltyPlayerId (gameState r),
                 res_votes = acc_votes (scoreRoom r), res_scores = acc_scores (scoreRoom r)\<rparr>"
proof -
  from assms obtain h env tm r where ev: "ev = TimerFires h env"
    and f: "List.find (\<lambda>t. timer_id t = h) (pending s) = Some tm"
    and cb: "callback tm = AdvancePhaseCb c"
    and r: "rooms s c = Some r" and ph: "phase (gameState r) = ACCUSATIONS"
    by (auto simp: scoringStep_def split: Event.splits option.splits Callback.splits if_splits)
  let ?s0 = "clearTimeout h s"
  have r0: "rooms ?s0 c = Some r" using r by (simp add: clearTimeout_def)
  have st: "step s ev = startPhase c RESULTS (PHASE_DURATIONS RESULTS) (now env)
                          (calculateResults c (now env) ?s0)"
    by (simp add: ev step_def fireTimer_def f cb Let_def advancePhase_cases [OF r0] ph)
  let ?r1 = "r\<lparr>players := acc_players (scoreRoom r),
                gameState := (gameState r)\<lparr>results := Some
                   \<lparr>res_guiltyPlayerId = guiltyPlayerId (gameState r),
                    res_votes = acc_votes (scoreRoom r),
                    res_scores = acc_scores (scoreRoom r)\<rparr>\<rparr>\<rparr>"
  have r1: "rooms (calculateResults c (now env) ?s0) c = Some ?r1"
    by (simp add: calculateResults_rooms [OF r0])
  show ?thesis
    unfolding st using r ph by (simp add: startPhase_eq [OF r1] startedRoom_def)
qed

lemma advancePhase_other:
  "c' \<noteq> c \<Longrightarrow> rooms (advancePhase c t s) c' = rooms s c'"
proof (cases "rooms s c")
  case None
  then show ?thesis by (simp add: advancePhase_None)
next
  case (Some room)
  assume ne: "c' \<noteq> c"
  have r1: "rooms (calculateResults c t s) c
            = Some (room\<lparr>players := acc_players (scoreRoom room),
                  gameState := (gameState room)\<lparr>results := Some
                     \<lparr>res_guiltyPlayerId = guiltyPlayerId (gameState room),
                      res_votes = acc_votes (scoreRoom room),
                      res_scores = acc_scores (scoreRoom room)\<rparr>\<rparr>\<rparr>)"
    by (simp add: calculateResults_rooms [OF Some])
  show ?thesis
    using ne
    by (cases "phase (gameState room)")
       (simp_all add: advancePhase_cases [OF Some] startPhase_eq [OF Some] startPhase_eq [OF r1]
          calculateResults_rooms [OF Some] modifyGameState_Some [OF Some])
qed

lemma sameTimers_phase:
  "sameTimers s s' \<Longrightarrow> rooms s' c = Some r' \<Longrightarrow>
   \<exists>r. rooms s c = Some r \<and> phase (gameState r) = phase (gameState r')"
  unfolding sameTimers_def by metis

lemma RESULTS_entered_by_scoringStep:
  assumes r': "rooms (step s ev) c = Some r'" and ph': "phase (gameState r') = RESULTS"
  shows "scoringStep s ev = Some c
         \<or> (\<exists>r. rooms s c = Some r \<and> phase (gameState r) = RESULTS)"
proof (cases ev)
  case (Connection ws pid)
  then have "sameTimers s (step s ev)" by (simp add: step_def sameTimers_onConnection)
  from sameTimers_phase [OF this r'] ph' show ?thesis by simp
next
  case (SocketNotOpen ws)
  with r' ph' show ?thesis by (simp add: step_def)
next
  case (Close ws)
  have "sameTimers s (s\<lparr>openSockets := removeAll ws (openSockets s)\<rparr>)"
    by (simp add: sameTimers_def)
  from sameTimers_trans [OF this sameTimers_handleDisconnect]
  have "sameTimers s (step s ev)" by (simp add: Close step_def)
  from sameTimers_phase [OF this r'] ph' show ?thesis by simp
next
  case (Message ws m env)
  show ?thesis
  proof (cases "map_of (clients s) ws")
    case None
    with Message r' ph' show ?thesis by (simp add: step_def handleMessage_def)
  next
    case (Some cd)
    show ?thesis
    proof (cases m)
      case CREATE_ROOM
      with Message Some r' ph' show ?thesis
        by (auto simp: step_def handleMessage_def createRoom_proj freshRoom_def newGameState_def
                 split: if_splits)
    next
      case (JOIN_ROOM rc nm)
      with Message Some have "sameTimers s (step s ev)"
        by (simp add: step_def handleMessage_def sameTimers_joinRoom)
      from sameTimers_phase [OF this r'] ph' show ?thesis by simp
    next
      case START_GAME
      show ?thesis
      proof (cases "roomCode cd")
        case None
        with START_GAME Message Some r' ph' show ?thesis
          by (simp add: step_def handleMessage_def startGame_def)
      next
        case rc: (Some c0)
        show ?thesis
        proof (cases "rooms s c0")
          case None
          with rc START_GAME Message Some r' ph' show ?thesis
            by (simp add: step_def handleMessage_def startGame_def)
        next
          case room: (Some room)
          show ?thesis
          proof (cases "4 \<le> length (players room)")
            case False
            with room rc START_GAME Message Some r' ph' show ?thesis
              by (simp add: step_def handleMessage_def startGame_def)
          next
            case True
            have "rooms (step s ev) = (rooms s)(c0 \<mapsto> startedRoom c0
                       (room\<lparr>gameState := roundReset room env\<rparr>) SETUP (Some 5000)
                       (now env) (nextTimer s))"
              using START_GAME Message Some rc
              by (simp add: step_def handleMessage_def startGame_room [OF room True])
            with r' ph' show ?thesis
              by (auto simp: startedRoom_def split: if_splits)
          qed
        qed
      qed
    next
      case (SUBMIT_ALIBI a)
      with Message Some have "sameTimers s (step s ev)"
        by (simp add: step_def handleMessage_def sameTimers_submitAlibi)
      from sameTimers_phase [OF this r'] ph' show ?thesis by simp
    next
      case (ASK_QUESTION toId q)
      with Message Some have "sameTimers s (step s ev)"
        by (simp add: step_def handleMessage_def sameTimers_askQuestion)
      from sameTimers_phase [OF this r'] ph' show ?thesis by simp
    next
      case (ANSWER_QUESTION qid a)
      with Message Some have "sameTimers s (step s ev)"
        by (simp add: step_def handleMessage_def sameTimers_answerQuestion)
      from sameTimers_phase [OF this r'] ph' show ?thesis by simp
    next
      case (SUBMIT_VOTE suspect conf)
      with Message Some have "sameTimers s (step s ev)"
        by (simp add: step_def handleMessage_def sameTimers_submitVote)
      from sameTimers_phase [OF this r'] ph' show ?thesis by simp
    qed
  qed
next
  case (TimerFires h env)
  show ?thesis
  proof (cases "List.find (\<lambda>t. timer_id t = h) (pending s)")
    case None
    with TimerFires r' ph' show ?thesis by (simp add: step_def fireTimer_def)
  next
    case (Some tm)
    show ?thesis
    proof (cases "callback tm")
      case (RevealEvidenceCb ref c0 e)
      with TimerFires Some r' ph' show ?thesis
        by (auto simp: step_def fireTimer_def Let_def clearTimeout_def modifyRoom_def
                 split: option.splits if_splits)
    next
      case (AdvancePhaseCb c0)
      have st: "step s ev = advancePhase c0 (now env) (clearTimeout h s)"
        using TimerFires Some AdvancePhaseCb by (simp add: step_def fireTimer_def Let_def)
      show ?thesis
      proof (cases "c = c0")
        case False
        with r' ph' show ?thesis
          by (simp add: st advancePhase_other clearTimeout_def)
      next
        case True
        show ?thesis
        proof (cases "rooms s c0")
          case None
          then have "rooms (clearTimeout h s) c0 = None" by (simp add: clearTimeout_def)
          from advancePhase_None [OF this] r' None True show ?thesis
            by (simp add: st clearTimeout_def)
        next
          case room: (Some room)
          then have r0: "rooms (clearTimeout h s) c0 = Some room" by (simp add: clearTimeout_def)
          from advancePhase_next [OF r0, of "now env"] r' ph' True
          have "nextInOrder (phase (gameState room)) = RESULTS" by (auto simp: st)
          then have "phase (gameState room) = ACCUSATIONS"
            by (cases "phase (gameState room)") (simp_all add: nextInOrder_def)
          with TimerFires Some AdvancePhaseCb room True show ?thesis
            by (simp add: scoringStep_def)
        qed
      qed
    qed
  qed
qed



lemma scoringSteps_append:
  "scoringSteps s (xs @ ys) = scoringSteps s xs + scoringSteps (run s xs) ys"
  by (induction xs arbitrary: s) (simp_all add: run_Nil run_Cons)


end
